theory Spec2Isabelle
  imports Complex_Main "HOL-Library.AList" "HOL-Library.Product_Lexorder"
    "HOL-Library.Multiset"
begin

section \<open>Python values and exceptions\<close>

text \<open>
  Exceptions are values: every function of the program that can raise returns
  \<open>error + 'a\<close>, with \<open>Inl\<close> carrying the exception class.
\<close>

datatype error =
  ValueError | KeyError | IndexError | OverflowError | UnicodeEncodeError | RequestError

definition bind :: "error + 'a \<Rightarrow> ('a \<Rightarrow> error + 'b) \<Rightarrow> error + 'b" where
  "bind m f = (case m of Inl e \<Rightarrow> Inl e | Inr x \<Rightarrow> f x)"

subsection \<open>Characters and integer parsing\<close>

text \<open>
  Strings are byte strings; digits and white space are the ASCII ones (Python's
  \<open>int\<close>, \<open>\d\<close> and \<open>\s\<close> also accept the non-ASCII Unicode digits and
  spaces, which are outside this model). \<open>\s\<close> of a regular expression counts the
  separators 28 to 31 as white space; \<open>int\<close> on an ASCII string skips only what C's
  \<open>isspace\<close> does.
\<close>

definition is_digit :: "char \<Rightarrow> bool" where
  "is_digit c = (48 \<le> (of_char c :: nat) \<and> (of_char c :: nat) \<le> 57)"

definition digit_val :: "char \<Rightarrow> nat" where
  "digit_val c = of_char c - 48"

definition is_space :: "char \<Rightarrow> bool" where
  "is_space c = (let n = (of_char c :: nat) in (9 \<le> n \<and> n \<le> 13) \<or> (28 \<le> n \<and> n \<le> 32))"

definition is_c_space :: "char \<Rightarrow> bool" where
  "is_c_space c = (let n = (of_char c :: nat) in (9 \<le> n \<and> n \<le> 13) \<or> n = 32)"

definition strip :: "string \<Rightarrow> string" where
  "strip s = rev (dropWhile is_c_space (rev (dropWhile is_c_space s)))"

text \<open>The digits after the first one of an integer literal: single underscores may
  separate digits.\<close>

fun int_digits :: "nat \<Rightarrow> string \<Rightarrow> nat option" where
  "int_digits acc [] = Some acc"
| "int_digits acc [c] = (if is_digit c then Some (10 * acc + digit_val c) else None)"
| "int_digits acc (c # d # ds) =
     (if is_digit c then int_digits (10 * acc + digit_val c) (d # ds)
      else if c = CHR ''_'' \<and> is_digit d then int_digits (10 * acc + digit_val d) ds
      else None)"

text \<open>\<open>int(s)\<close> in base 10: surrounding white space, an optional sign, digits. A
  text with more digits than the interpreter's limit, 4300 unless configured otherwise,
  is refused; leading zeros count, underscores do not.\<close>

definition max_str_digits :: nat where
  "max_str_digits = 4300"

definition py_int :: "string \<Rightarrow> error + int" where
  "py_int s =
     (case strip s of
        [] \<Rightarrow> Inl ValueError
      | c # cs \<Rightarrow>
          (let neg = (c = CHR ''-'');
               body = (if c = CHR ''-'' \<or> c = CHR ''+'' then cs else c # cs)
           in case body of
                [] \<Rightarrow> Inl ValueError
              | d # ds \<Rightarrow>
                  if is_digit d
                  then (case int_digits (digit_val d) ds of
                          None \<Rightarrow> Inl ValueError
                        | Some n \<Rightarrow>
                            if max_str_digits < length (filter is_digit (d # ds))
                            then Inl ValueError
                            else Inr (if neg then - int n else int n))
                  else Inl ValueError))"

text \<open>\<open>s.split(":")\<close>\<close>

fun split_colon :: "string \<Rightarrow> string list" where
  "split_colon [] = [[]]"
| "split_colon (c # cs) =
     (if c = CHR '':'' then [] # split_colon cs
      else (case split_colon cs of p # ps \<Rightarrow> (c # p) # ps | [] \<Rightarrow> [[c]]))"

section \<open>The datetime library, as far as the program uses it\<close>

record datetime =
  year :: nat
  month :: nat
  day :: nat
  hour :: nat
  minute :: nat
  second :: nat
  microsecond :: nat

definition is_leap :: "nat \<Rightarrow> bool" where
  "is_leap y = (y mod 4 = 0 \<and> (y mod 100 \<noteq> 0 \<or> y mod 400 = 0))"

definition days_in_month :: "nat \<Rightarrow> nat \<Rightarrow> nat" where
  "days_in_month y m =
     (if m = 2 then (if is_leap y then 29 else 28)
      else if m = 4 \<or> m = 6 \<or> m = 9 \<or> m = 11 then 30 else 31)"

definition valid_date :: "nat \<Rightarrow> nat \<Rightarrow> nat \<Rightarrow> bool" where
  "valid_date y m d =
     (1 \<le> y \<and> y \<le> 9999 \<and> 1 \<le> m \<and> m \<le> 12 \<and> 1 \<le> d \<and> d \<le> days_in_month y m)"

definition days_before_year :: "nat \<Rightarrow> int" where
  "days_before_year y =
     (let p = int y - 1 in p * 365 + p div 4 - p div 100 + p div 400)"

definition days_before_month :: "nat \<Rightarrow> nat \<Rightarrow> int" where
  "days_before_month y m = int (sum_list (map (days_in_month y) [1..<m]))"

text \<open>The proleptic Gregorian ordinal of a date: 0001-01-01 is day 1.\<close>

definition ymd2ord :: "nat \<Rightarrow> nat \<Rightarrow> nat \<Rightarrow> int" where
  "ymd2ord y m d = days_before_year y + days_before_month y m + int d"

definition toordinal :: "datetime \<Rightarrow> int" where
  "toordinal dt = ymd2ord (year dt) (month dt) (day dt)"

text \<open>\<open>dt + timedelta(days=1)\<close>: the next calendar day, at the same time of day; past
  9999-12-31 the library raises OverflowError.\<close>

definition add_one_day :: "datetime \<Rightarrow> error + datetime" where
  "add_one_day dt =
     (if day dt < days_in_month (year dt) (month dt) then Inr (dt\<lparr>day := day dt + 1\<rparr>)
      else if month dt < 12 then Inr (dt\<lparr>month := month dt + 1, day := 1\<rparr>)
      else if year dt < 9999 then Inr (dt\<lparr>year := year dt + 1, month := 1, day := 1\<rparr>)
      else Inl OverflowError)"

text \<open>\<open>dt.replace(hour=h, minute=m, second=s)\<close>: an argument that does not fit a C int
  raises OverflowError, one outside its range raises ValueError.\<close>

definition fits_c_int :: "int \<Rightarrow> bool" where
  "fits_c_int v = (- (2 ^ 31) \<le> v \<and> v < 2 ^ 31)"

definition replace_hms :: "datetime \<Rightarrow> int \<Rightarrow> int \<Rightarrow> int \<Rightarrow> error + datetime" where
  "replace_hms dt h m s =
     (if \<not> (fits_c_int h \<and> fits_c_int m \<and> fits_c_int s) then Inl OverflowError
      else if 0 \<le> h \<and> h \<le> 23 \<and> 0 \<le> m \<and> m \<le> 59 \<and> 0 \<le> s \<and> s \<le> 59
      then Inr (dt\<lparr>hour := nat h, minute := nat m, second := nat s\<rparr>)
      else Inl ValueError)"

text \<open>Naive datetimes compare field by field, most significant first.\<close>

definition dt_key :: "datetime \<Rightarrow> nat \<times> nat \<times> nat \<times> nat \<times> nat \<times> nat \<times> nat" where
  "dt_key dt = (year dt, month dt, day dt, hour dt, minute dt, second dt, microsecond dt)"

subsection \<open>strptime\<close>

text \<open>
  \<open>strptime\<close> turns the format into a regular expression, one group per directive,
  and matches it against the text. Each group below returns the first alternative of
  its directive that matches, with the rest of the text; in the two formats of the
  program every group is followed by a literal that is no digit or by the end of the
  format, so a later alternative never rescues a match. Every failure is ValueError.
\<close>

text \<open>\<open>%Y\<close> is \<open>\d\d\d\d\<close>\<close>

fun re_Y :: "string \<Rightarrow> (nat \<times> string) option" where
  "re_Y (a # b # c # d # r) =
     (if is_digit a \<and> is_digit b \<and> is_digit c \<and> is_digit d
      then Some (1000 * digit_val a + 100 * digit_val b + 10 * digit_val c + digit_val d, r)
      else None)"
| "re_Y _ = None"

definition in_range :: "char \<Rightarrow> nat \<Rightarrow> nat \<Rightarrow> bool" where
  "in_range c lo hi = (is_digit c \<and> lo \<le> digit_val c \<and> digit_val c \<le> hi)"

text \<open>\<open>%m\<close> is \<open>1[0-2]|0[1-9]|[1-9]\<close>\<close>

fun re_m :: "string \<Rightarrow> (nat \<times> string) option" where
  "re_m (a # b # r) =
     (if a = CHR ''1'' \<and> in_range b 0 2 then Some (10 + digit_val b, r)
      else if a = CHR ''0'' \<and> in_range b 1 9 then Some (digit_val b, r)
      else if in_range a 1 9 then Some (digit_val a, b # r)
      else None)"
| "re_m [a] = (if in_range a 1 9 then Some (digit_val a, []) else None)"
| "re_m [] = None"

text \<open>\<open>%d\<close> is \<open>3[0-1]|[1-2]\d|0[1-9]|[1-9]| [1-9]\<close>\<close>

fun re_d :: "string \<Rightarrow> (nat \<times> string) option" where
  "re_d (a # b # r) =
     (if a = CHR ''3'' \<and> in_range b 0 1 then Some (30 + digit_val b, r)
      else if in_range a 1 2 \<and> is_digit b then Some (10 * digit_val a + digit_val b, r)
      else if a = CHR ''0'' \<and> in_range b 1 9 then Some (digit_val b, r)
      else if in_range a 1 9 then Some (digit_val a, b # r)
      else if a = CHR '' '' \<and> in_range b 1 9 then Some (digit_val b, r)
      else None)"
| "re_d [a] = (if in_range a 1 9 then Some (digit_val a, []) else None)"
| "re_d [] = None"

text \<open>\<open>%H\<close> is \<open>2[0-3]|[0-1]\d|\d\<close>\<close>

fun re_H :: "string \<Rightarrow> (nat \<times> string) option" where
  "re_H (a # b # r) =
     (if a = CHR ''2'' \<and> in_range b 0 3 then Some (20 + digit_val b, r)
      else if in_range a 0 1 \<and> is_digit b then Some (10 * digit_val a + digit_val b, r)
      else if is_digit a then Some (digit_val a, b # r)
      else None)"
| "re_H [a] = (if is_digit a then Some (digit_val a, []) else None)"
| "re_H [] = None"

text \<open>\<open>%M\<close> is \<open>[0-5]\d|\d\<close>\<close>

fun re_M :: "string \<Rightarrow> (nat \<times> string) option" where
  "re_M (a # b # r) =
     (if in_range a 0 5 \<and> is_digit b then Some (10 * digit_val a + digit_val b, r)
      else if is_digit a then Some (digit_val a, b # r)
      else None)"
| "re_M [a] = (if is_digit a then Some (digit_val a, []) else None)"
| "re_M [] = None"

text \<open>\<open>%S\<close> is \<open>6[0-1]|[0-5]\d|\d\<close>\<close>

fun re_S :: "string \<Rightarrow> (nat \<times> string) option" where
  "re_S (a # b # r) =
     (if a = CHR ''6'' \<and> in_range b 0 1 then Some (60 + digit_val b, r)
      else if in_range a 0 5 \<and> is_digit b then Some (10 * digit_val a + digit_val b, r)
      else if is_digit a then Some (digit_val a, b # r)
      else None)"
| "re_S [a] = (if is_digit a then Some (digit_val a, []) else None)"
| "re_S [] = None"

text \<open>A literal character of the format.\<close>

fun re_lit :: "char \<Rightarrow> string \<Rightarrow> string option" where
  "re_lit c [] = None"
| "re_lit c (x # xs) = (if x = c then Some xs else None)"

text \<open>A space of the format is \<open>\s+\<close>.\<close>

fun re_spaces :: "string \<Rightarrow> string option" where
  "re_spaces [] = None"
| "re_spaces (x # xs) = (if is_space x then Some (dropWhile is_space xs) else None)"

definition obind :: "'a option \<Rightarrow> ('a \<Rightarrow> 'b option) \<Rightarrow> 'b option" where
  "obind m f = (case m of None \<Rightarrow> None | Some x \<Rightarrow> f x)"

text \<open>The groups of \<open>%Y-%m-%d\<close>, and what is left of the text.\<close>

definition match_Ymd :: "string \<Rightarrow> ((nat \<times> nat \<times> nat) \<times> string) option" where
  "match_Ymd s =
     obind (re_Y s) (\<lambda>(y, r1).
     obind (re_lit CHR ''-'' r1) (\<lambda>r2.
     obind (re_m r2) (\<lambda>(m, r3).
     obind (re_lit CHR ''-'' r3) (\<lambda>r4.
     obind (re_d r4) (\<lambda>(d, r5). Some ((y, m, d), r5))))))"

text \<open>\<open>datetime.strptime(s, "%Y-%m-%d")\<close>\<close>

definition strptime_Ymd :: "string \<Rightarrow> error + datetime" where
  "strptime_Ymd s =
     (case match_Ymd s of
        Some ((y, m, d), []) \<Rightarrow>
          if valid_date y m d
          then Inr \<lparr>year = y, month = m, day = d, hour = 0, minute = 0, second = 0,
                    microsecond = 0\<rparr>
          else Inl ValueError
      | _ \<Rightarrow> Inl ValueError)"

text \<open>\<open>datetime.strptime(s, "%Y-%m-%d %H:%M:%S")\<close>\<close>

definition match_HMS :: "string \<Rightarrow> ((nat \<times> nat \<times> nat) \<times> string) option" where
  "match_HMS s =
     obind (re_H s) (\<lambda>(h, r1).
     obind (re_lit CHR '':'' r1) (\<lambda>r2.
     obind (re_M r2) (\<lambda>(m, r3).
     obind (re_lit CHR '':'' r3) (\<lambda>r4.
     obind (re_S r4) (\<lambda>(s, r5). Some ((h, m, s), r5))))))"

definition strptime_Ymd_HMS :: "string \<Rightarrow> error + datetime" where
  "strptime_Ymd_HMS s =
     (case obind (match_Ymd s) (\<lambda>(ymd, r1).
           obind (re_spaces r1) (\<lambda>r2.
           obind (match_HMS r2) (\<lambda>(hms, r3). Some (ymd, hms, r3)))) of
        Some ((y, m, d), (h, mi, sec), []) \<Rightarrow>
          if valid_date y m d \<and> sec \<le> 59
          then Inr \<lparr>year = y, month = m, day = d, hour = h, minute = mi, second = sec,
                    microsecond = 0\<rparr>
          else Inl ValueError
      | _ \<Rightarrow> Inl ValueError)"

section \<open>utils.py\<close>

subsection \<open>get_corrected_datetime\<close>

definition get_corrected_datetime :: "string \<Rightarrow> string \<Rightarrow> error + datetime" where
  "get_corrected_datetime service_date arrival_time =
     bind (strptime_Ymd service_date) (\<lambda>arrival_date.
       case split_colon arrival_time of
         [hs, ms, ss] \<Rightarrow>
           bind (py_int hs) (\<lambda>hour.
           bind (py_int ms) (\<lambda>minute.
           bind (py_int ss) (\<lambda>second.
             if hour > 23
             then bind (add_one_day arrival_date) (\<lambda>arrival_date'.
                    replace_hms arrival_date' (hour mod 24) minute second)
             else replace_hms arrival_date hour minute second)))
       | _ \<Rightarrow> Inl ValueError)"


subsection \<open>string_to_dark_background_color\<close>

definition hex_digit_val :: "char \<Rightarrow> nat option" where
  "hex_digit_val c =
     (let n = (of_char c :: nat)
      in if 48 \<le> n \<and> n \<le> 57 then Some (n - 48)
         else if 97 \<le> n \<and> n \<le> 102 then Some (n - 87)
         else if 65 \<le> n \<and> n \<le> 70 then Some (n - 55)
         else None)"

fun hex_digits :: "nat \<Rightarrow> string \<Rightarrow> nat option" where
  "hex_digits acc [] = Some acc"
| "hex_digits acc [c] =
     (case hex_digit_val c of None \<Rightarrow> None | Some v \<Rightarrow> Some (16 * acc + v))"
| "hex_digits acc (c # d # ds) =
     (case hex_digit_val c of
        Some v \<Rightarrow> hex_digits (16 * acc + v) (d # ds)
      | None \<Rightarrow>
          if c = CHR ''_''
          then (case hex_digit_val d of None \<Rightarrow> None
                | Some w \<Rightarrow> hex_digits (16 * acc + w) ds)
          else None)"

text \<open>The text after the sign of a base-16 literal may start with \<open>0x\<close>, and one
  underscore may follow that prefix.\<close>

fun skip_0x :: "string \<Rightarrow> string" where
  "skip_0x (z # x # r) =
     (if z = CHR ''0'' \<and> (x = CHR ''x'' \<or> x = CHR ''X'')
      then (case r of u # r' \<Rightarrow> if u = CHR ''_'' then r' else r | [] \<Rightarrow> r)
      else z # x # r)"
| "skip_0x s = s"

text \<open>\<open>int(s, 16)\<close>; the limit on the number of digits does not apply to a base that
  is a power of two.\<close>

definition py_int16 :: "string \<Rightarrow> error + int" where
  "py_int16 s =
     (case strip s of
        [] \<Rightarrow> Inl ValueError
      | c # cs \<Rightarrow>
          (let neg = (c = CHR ''-'');
               body = skip_0x (if c = CHR ''-'' \<or> c = CHR ''+'' then cs else c # cs)
           in case body of
                [] \<Rightarrow> Inl ValueError
              | d # ds \<Rightarrow>
                  (case hex_digit_val d of
                     None \<Rightarrow> Inl ValueError
                   | Some v \<Rightarrow>
                       (case hex_digits v ds of
                          None \<Rightarrow> Inl ValueError
                        | Some n \<Rightarrow> Inr (if neg then - int n else int n)))))"

text \<open>
  The argument is a Python \<open>str\<close>: a list of code points, each at most 0x10FFFF.
  \<open>encode()\<close> gives its UTF-8 bytes and raises UnicodeEncodeError on a surrogate code
  point (0xD800 to 0xDFFF), which a \<open>str\<close> can hold.
\<close>

definition is_surrogate :: "nat \<Rightarrow> bool" where
  "is_surrogate c = (55296 \<le> c \<and> c \<le> 57343)"

definition utf8_char :: "nat \<Rightarrow> string" where
  "utf8_char c =
     (if c < 128 then [char_of c]
      else if c < 2048 then [char_of (192 + c div 64), char_of (128 + c mod 64)]
      else if c < 65536
      then [char_of (224 + c div 4096), char_of (128 + c div 64 mod 64),
            char_of (128 + c mod 64)]
      else [char_of (240 + c div 262144), char_of (128 + c div 4096 mod 64),
            char_of (128 + c div 64 mod 64), char_of (128 + c mod 64)])"

definition utf8 :: "nat list \<Rightarrow> string" where
  "utf8 s = concat (map utf8_char s)"

definition encode :: "nat list \<Rightarrow> error + string" where
  "encode s = (if list_ex is_surrogate s then Inl UnicodeEncodeError else Inr (utf8 s))"

text \<open>
  \<open>md5_hexdigest b\<close> stands for \<open>hashlib.md5(b).hexdigest()\<close>, the library's digest
  of the bytes as 32 lower-case hexadecimal digits; it is a parameter.
\<close>

definition is_hexdigest :: "string \<Rightarrow> bool" where
  "is_hexdigest d = (length d = 32 \<and> list_all (\<lambda>c. c \<in> set ''0123456789abcdef'') d)"

definition string_to_dark_background_color ::
  "(string \<Rightarrow> string) \<Rightarrow> nat list \<Rightarrow> error + (int \<times> int \<times> int)" where
  "string_to_dark_background_color md5_hexdigest input_string =
     bind (encode input_string) (\<lambda>encoded.
       let hash_hex = md5_hexdigest encoded;
           hex_color = take 6 hash_hex
       in bind (py_int16 (take 2 hex_color)) (\<lambda>r.
          bind (py_int16 (take 2 (drop 2 hex_color))) (\<lambda>g.
          bind (py_int16 (take 2 (drop 4 hex_color))) (\<lambda>b.
            Inr (r mod 128, g mod 128, b mod 128)))))"

subsection \<open>haversine\<close>

text \<open>
  The floating-point numbers of this function are modelled by the reals, without the
  rounding of the operations. \<open>math.sqrt\<close> raises ValueError on a negative argument;
  in the reals \<open>a\<close> never exceeds 1 for latitudes between -90 and 90, whereas on
  floats rounding can push it above 1 near antipodal points, where the code then raises
  ValueError.
\<close>

definition radians :: "real \<Rightarrow> real" where
  "radians x = x * pi / 180"

definition atan2 :: "real \<Rightarrow> real \<Rightarrow> real" where
  "atan2 y x =
     (if 0 < x then arctan (y / x)
      else if x < 0 then (if 0 \<le> y then arctan (y / x) + pi else arctan (y / x) - pi)
      else if 0 < y then pi / 2
      else if y < 0 then - pi / 2
      else 0)"

definition py_sqrt :: "real \<Rightarrow> error + real" where
  "py_sqrt x = (if x < 0 then Inl ValueError else Inr (sqrt x))"

definition haversine :: "real \<Rightarrow> real \<Rightarrow> real \<Rightarrow> real \<Rightarrow> error + real" where
  "haversine lat1 lon1 lat2 lon2 =
     (let la1 = radians lat1; lo1 = radians lon1; la2 = radians lat2; lo2 = radians lon2;
          d_lat = la2 - la1;
          d_lon = lo2 - lo1;
          a = (sin (d_lat / 2))\<^sup>2 + cos la1 * cos la2 * (sin (d_lon / 2))\<^sup>2
      in bind (py_sqrt a) (\<lambda>sa.
         bind (py_sqrt (1 - a)) (\<lambda>sb.
           let c = 2 * atan2 sa sb;
               r = 6371
           in Inr (r * c))))"

subsection \<open>get_lat_long_from_string_address\<close>

record location =
  loc_lat :: string
  loc_lon :: string

text \<open>
  The lookup service (the HTTP request and the decoding of its JSON answer) and
  \<open>float\<close> are parameters.
\<close>

definition get_lat_long_from_string_address ::
  "(string \<Rightarrow> error + location list) \<Rightarrow> (string \<Rightarrow> error + real) \<Rightarrow> string
     \<Rightarrow> error + (real \<times> real)" where
  "get_lat_long_from_string_address lookup py_float address =
     bind (lookup address) (\<lambda>data.
       case data of
         [] \<Rightarrow> Inr (0, 0)
       | location # _ \<Rightarrow>
           bind (py_float (loc_lat location)) (\<lambda>lat.
           bind (py_float (loc_lon location)) (\<lambda>lon. Inr (lat, lon))))"

subsection \<open>The transit data\<close>

text \<open>The JSON objects of the transit API, with the fields the program reads.
  \<open>geometry.coordinates\<close> is longitude, then latitude.\<close>

record stop =
  stop_id :: int
  stop_name :: string
  stop_lon :: real
  stop_lat :: real

record route =
  route_short_name :: string
  route_type :: int
  agency_name :: string

record trip =
  trip_id :: int
  trip_headsign :: string
  trip_route :: route

record arrival =
  estimated :: "string option"
  scheduled :: string

record departure =
  dep_trip :: trip
  dep_arrival :: arrival
  service_date :: string
  dep_arrival_time :: string

text \<open>The value stored for a trip by \<open>get_next_departures_for_stop_list\<close>.\<close>

record tracked =
  t_departure :: departure
  t_closest_stop :: stop
  t_distance :: real
  t_arrival_time :: datetime
  t_realtime_data :: bool

text \<open>The value stored for a route and direction by \<open>get_upcoming_departures\<close>.\<close>

record route_group =
  g_route :: string
  g_route_type :: string
  g_direction :: string
  g_stop :: string
  g_arrival_times :: "datetime list"
  g_realtime_data :: "bool list"
  g_agency_name :: string
  g_full_stop :: stop

text \<open>
  A dictionary is an association list in insertion order with distinct keys:
  \<open>map_of\<close> looks a key up, \<open>AList.update\<close> replaces the value of a key where it
  stands and puts a new key at the end, as a Python dict does.

  \<open>get_departures_for_stop_id\<close> is the request to the transit API: a parameter
  that gives, for a stop id, the departures of that stop or the exception raised.
\<close>

type_synonym departures_api = "int \<Rightarrow> error + departure list"

subsection \<open>get_next_departures_for_stop_list\<close>

text \<open>The body of the inner loop, for one departure of one stop.\<close>

definition track_departure ::
  "real \<times> real \<Rightarrow> stop \<Rightarrow> (int \<times> tracked) list \<Rightarrow> departure
     \<Rightarrow> error + (int \<times> tracked) list" where
  "track_departure starting_coords stop departures stop_departure =
     (let trip_id = trip_id (dep_trip stop_departure)
      in bind (haversine (fst starting_coords) (snd starting_coords)
                 (stop_lat stop) (stop_lon stop)) (\<lambda>user_distance_from_stop.
         let realtime_arrival_time = estimated (dep_arrival stop_departure);
             scheduled_arrival_time = scheduled (dep_arrival stop_departure);
             truthy = (case realtime_arrival_time of None \<Rightarrow> False | Some s \<Rightarrow> s \<noteq> []);
             realtime_data = truthy;
             arrival_time = (if truthy then the realtime_arrival_time
                             else scheduled_arrival_time)
         in case map_of departures trip_id of
              None \<Rightarrow>
                bind (get_corrected_datetime (service_date stop_departure) arrival_time)
                  (\<lambda>arrival_datetime.
                    Inr (AList.update trip_id
                      \<lparr>t_departure = stop_departure, t_closest_stop = stop,
                       t_distance = user_distance_from_stop,
                       t_arrival_time = arrival_datetime,
                       t_realtime_data = realtime_data\<rparr> departures))
            | Some cached \<Rightarrow>
                (let current_distance_from_cached_stop = t_distance cached
                 in if user_distance_from_stop < current_distance_from_cached_stop
                    then bind (strptime_Ymd_HMS
                                 (service_date stop_departure @ '' '' @ arrival_time))
                           (\<lambda>arrival_datetime.
                             Inr (AList.update trip_id
                               \<lparr>t_departure = stop_departure, t_closest_stop = stop,
                                t_distance = user_distance_from_stop,
                                t_arrival_time = arrival_datetime,
                                t_realtime_data = realtime_data\<rparr> departures))
                    else Inr departures)))"

text \<open>The inner loop, over the departures of one stop.\<close>

fun track_departures ::
  "real \<times> real \<Rightarrow> stop \<Rightarrow> (int \<times> tracked) list \<Rightarrow> departure list
     \<Rightarrow> error + (int \<times> tracked) list" where
  "track_departures starting_coords stop departures [] = Inr departures"
| "track_departures starting_coords stop departures (d # ds) =
     bind (track_departure starting_coords stop departures d)
       (\<lambda>departures'. track_departures starting_coords stop departures' ds)"

text \<open>The outer loop, over the stops.\<close>

fun track_stops ::
  "departures_api \<Rightarrow> real \<times> real \<Rightarrow> (int \<times> tracked) list \<Rightarrow> stop list
     \<Rightarrow> error + (int \<times> tracked) list" where
  "track_stops api starting_coords departures [] = Inr departures"
| "track_stops api starting_coords departures (stop # stops) =
     bind (api (stop_id stop)) (\<lambda>departures_for_stop.
     bind (track_departures starting_coords stop departures departures_for_stop)
       (\<lambda>departures'. track_stops api starting_coords departures' stops))"

definition get_next_departures_for_stop_list ::
  "departures_api \<Rightarrow> stop list \<Rightarrow> real \<times> real \<Rightarrow> error + (int \<times> tracked) list" where
  "get_next_departures_for_stop_list api stops starting_coords =
     track_stops api starting_coords [] stops"

subsection \<open>gtfs_route_type_to_string\<close>

definition bytes :: "nat list \<Rightarrow> string" where
  "bytes ns = map char_of ns"

definition route_type_to_string_mapping :: "(int \<times> string) list" where
  "route_type_to_string_mapping =
     [(0, ''Trolley '' @ bytes [195, 176, 197, 184, 197, 161, 226, 128, 185]),
      (1, ''Subway '' @ bytes [195, 176, 197, 184, 197, 161, 226, 128, 161]),
      (2, ''Train '' @ bytes [195, 176, 197, 184, 197, 161, 226, 128, 160]),
      (3, ''Bus '' @ bytes [195, 176, 197, 184, 197, 161]),
      (4, ''Ferry '' @ bytes [195, 162, 226, 128, 186, 194, 180, 195, 175, 194, 184]),
      (5, ''Cable Tram '' @ bytes [195, 176, 197, 184, 197, 161, 226, 128, 185]),
      (6, ''Aerial Lift '' @ bytes [195, 176, 197, 184, 197, 161, 194, 160]),
      (7, ''Funicular '' @ bytes [195, 176, 197, 184, 197, 161, 194, 161]),
      (11, ''TrolleyBus '' @ bytes [195, 176, 197, 184, 197, 161, 197, 189]),
      (12, ''Monorail '' @ bytes [195, 176, 197, 184, 197, 161])]"

definition gtfs_route_type_to_string :: "int \<Rightarrow> error + string" where
  "gtfs_route_type_to_string route_type_int =
     (case map_of route_type_to_string_mapping route_type_int of
        None \<Rightarrow> Inl KeyError
      | Some s \<Rightarrow> Inr s)"

subsection \<open>get_upcoming_departures\<close>

definition route_headsign_combo :: "departure \<Rightarrow> string" where
  "route_headsign_combo departure =
     route_short_name (trip_route (dep_trip departure)) @ '' - ''
       @ trip_headsign (dep_trip departure)"

text \<open>The body of the grouping loop, for one trip.\<close>

definition store_entry ::
  "(string \<times> route_group) list \<Rightarrow> int \<times> tracked \<Rightarrow> error + (string \<times> route_group) list"
  where
  "store_entry departure_dict item =
     (let trip_vals = snd item;
          departure = t_departure trip_vals;
          closest_stop = t_closest_stop trip_vals;
          arrival_datetime = t_arrival_time trip_vals;
          realtime_data = t_realtime_data trip_vals;
          combo = route_headsign_combo departure
      in case map_of departure_dict combo of
           None \<Rightarrow>
             bind (gtfs_route_type_to_string (route_type (trip_route (dep_trip departure))))
               (\<lambda>type_string.
                 Inr (AList.update combo
                   \<lparr>g_route = route_short_name (trip_route (dep_trip departure)),
                    g_route_type = type_string,
                    g_direction = trip_headsign (dep_trip departure),
                    g_stop = stop_name closest_stop,
                    g_arrival_times = [arrival_datetime],
                    g_realtime_data = [realtime_data],
                    g_agency_name = agency_name (trip_route (dep_trip departure)),
                    g_full_stop = closest_stop\<rparr> departure_dict))
         | Some entry \<Rightarrow>
             if length (g_arrival_times entry) < 4
             then Inr (AList.update combo
                    (entry\<lparr>g_arrival_times := g_arrival_times entry @ [arrival_datetime],
                           g_realtime_data := g_realtime_data entry @ [realtime_data]\<rparr>)
                    departure_dict)
             else Inr departure_dict)"

fun store_entries ::
  "(string \<times> route_group) list \<Rightarrow> (int \<times> tracked) list
     \<Rightarrow> error + (string \<times> route_group) list" where
  "store_entries departure_dict [] = Inr departure_dict"
| "store_entries departure_dict (item # items) =
     bind (store_entry departure_dict item)
       (\<lambda>departure_dict'. store_entries departure_dict' items)"

text \<open>The stops worth monitoring: the stop of each group, once per stop id.\<close>

fun monitored_stops :: "stop list \<Rightarrow> (string \<times> route_group) list \<Rightarrow> stop list" where
  "monitored_stops updated_stop_list [] = updated_stop_list"
| "monitored_stops updated_stop_list (kv # kvs) =
     (if \<not> list_ex (\<lambda>stop_list_entry. stop_id stop_list_entry = stop_id (g_full_stop (snd kv)))
              updated_stop_list
      then monitored_stops (updated_stop_list @ [g_full_stop (snd kv)]) kvs
      else monitored_stops updated_stop_list kvs)"

definition sorted_departures :: "(int \<times> tracked) list \<Rightarrow> (int \<times> tracked) list" where
  "sorted_departures all_departures =
     sort_key (\<lambda>item. dt_key (t_arrival_time (snd item))) all_departures"

definition get_upcoming_departures ::
  "departures_api \<Rightarrow> stop list \<Rightarrow> real \<times> real
     \<Rightarrow> error + ((string \<times> route_group) list \<times> stop list)" where
  "get_upcoming_departures api stop_list address_geo_coords =
     bind (get_next_departures_for_stop_list api stop_list address_geo_coords)
       (\<lambda>all_departures.
     bind (store_entries [] (sorted_departures all_departures))
       (\<lambda>departure_dict. Inr (departure_dict, monitored_stops [] departure_dict)))"

subsection \<open>time_difference_strings\<close>

text \<open>
  The later of the two definitions, which is the one in force. \<open>datetime.now()\<close> is
  the parameter \<open>current_time\<close>. The difference of two datetimes is exact, in
  microseconds.
\<close>

definition to_microseconds :: "datetime \<Rightarrow> int" where
  "to_microseconds dt =
     (((toordinal dt * 24 + int (hour dt)) * 60 + int (minute dt)) * 60 + int (second dt))
       * 1000000 + int (microsecond dt)"

text \<open>
  \<open>total_seconds()\<close> divides the microseconds by \<open>10 ** 6\<close> and the program divides
  the result by 60, both times in binary64 floating point: the quotient is rounded to
  53 significant bits, to the nearest, ties to the even mantissa. A float is a mantissa
  and a binary exponent, standing for \<open>mantissa * 2 ^ exponent\<close>. The differences of
  two datetimes lie far inside the exponent range of the format, which is not modelled.
\<close>

fun bits :: "nat \<Rightarrow> nat" where
  "bits n = (if n = 0 then 0 else Suc (bits (n div 2)))"

declare bits.simps [simp del]

text \<open>The exponent of the leading bit of \<open>n / d\<close>.\<close>

definition floor_log2 :: "nat \<Rightarrow> nat \<Rightarrow> int" where
  "floor_log2 n d =
     (let k = int (bits n) - int (bits d)
      in if (if 0 \<le> k then d * 2 ^ nat k \<le> n else d \<le> n * 2 ^ nat (- k)) then k else k - 1)"

definition round_half_even :: "nat \<Rightarrow> nat \<Rightarrow> nat" where
  "round_half_even n d =
     (let q = n div d; r = n mod d
      in if 2 * r < d then q else if d < 2 * r then q + 1 else if even q then q else q + 1)"

text \<open>The float nearest to \<open>n / d\<close>, for positive \<open>n\<close> and \<open>d\<close>.\<close>

definition float_div :: "nat \<Rightarrow> nat \<Rightarrow> nat \<times> int" where
  "float_div n d =
     (let e = floor_log2 n d - 52
      in if 0 \<le> e then (round_half_even n (d * 2 ^ nat e), e)
         else (round_half_even (n * 2 ^ nat (- e)) d, e))"

text \<open>\<open>int(total_seconds() / 60)\<close> for a difference of \<open>a\<close> microseconds,
  \<open>a\<close> not negative: two rounded divisions, then the integer part.\<close>

definition float_minutes :: "nat \<Rightarrow> nat" where
  "float_minutes a =
     (if a = 0 then 0
      else let (m1, e1) = float_div a 1000000;
               (m2, e2) = (if 0 \<le> e1 then float_div (m1 * 2 ^ nat e1) 60
                           else float_div m1 (60 * 2 ^ nat (- e1)))
           in if 0 \<le> e2 then m2 * 2 ^ nat e2 else m2 div 2 ^ nat (- e2))"

text \<open>Rounding to nearest is symmetric about zero, and so is \<open>int\<close>.\<close>

definition minutes_difference :: "datetime \<Rightarrow> datetime \<Rightarrow> int" where
  "minutes_difference current_time date =
     (let time_difference = to_microseconds date - to_microseconds current_time
      in sgn time_difference * int (float_minutes (nat \<bar>time_difference\<bar>)))"

text \<open>\<open>str(n)\<close> for a natural number.\<close>

fun str_nat :: "nat \<Rightarrow> string" where
  "str_nat n =
     (if n < 10 then [char_of (48 + n)]
      else str_nat (n div 10) @ [char_of (48 + n mod 10)])"

declare str_nat.simps [simp del]

text \<open>The marker of realtime data, with the bytes of the source file.\<close>

definition realtime_marker :: string where
  "realtime_marker = bytes [195, 176, 197, 184, 226, 128, 156, 194, 161]"

text \<open>The body of the loop, for the date at \<open>date_index\<close>.\<close>

definition time_string ::
  "datetime \<Rightarrow> bool list option \<Rightarrow> nat \<Rightarrow> datetime \<Rightarrow> error + string" where
  "time_string current_time realtime_data date_index date =
     (let minutes_difference = minutes_difference current_time date;
          time_string_to_add =
            (if minutes_difference = 0 then ''Now''
             else str_nat (nat \<bar>minutes_difference\<bar>) @ '' min'')
      in case realtime_data of
           None \<Rightarrow> Inr time_string_to_add
         | Some [] \<Rightarrow> Inr time_string_to_add
         | Some (f # fs) \<Rightarrow>
             if date_index < length (f # fs)
             then Inr (if (f # fs) ! date_index then time_string_to_add @ realtime_marker
                       else time_string_to_add)
             else Inl IndexError)"

fun time_strings_from ::
  "datetime \<Rightarrow> bool list option \<Rightarrow> nat \<Rightarrow> datetime list \<Rightarrow> error + string list" where
  "time_strings_from current_time realtime_data date_index [] = Inr []"
| "time_strings_from current_time realtime_data date_index (date # dates) =
     bind (time_string current_time realtime_data date_index date) (\<lambda>s.
     bind (time_strings_from current_time realtime_data (Suc date_index) dates) (\<lambda>ss.
       Inr (s # ss)))"

definition time_difference_strings ::
  "datetime \<Rightarrow> datetime list \<Rightarrow> bool list option \<Rightarrow> error + string list" where
  "time_difference_strings current_time date_list realtime_data =
     time_strings_from current_time realtime_data 0 date_list"

section \<open>mini_metro_display.py\<close>

definition UPDATE_INTERVALS_TO_USE_CACHED_STOP_DATA :: int where
  "UPDATE_INTERVALS_TO_USE_CACHED_STOP_DATA = 30"

subsection \<open>WorkerThread\<close>

record worker =
  monitored_stop_list :: "stop list"
  address_coords :: "real \<times> real"
  update_intervals_to_use_cached_stop_data :: int

definition worker_init :: "stop list \<Rightarrow> real \<times> real \<Rightarrow> worker" where
  "worker_init stops coords =
     \<lparr>monitored_stop_list = stops, address_coords = coords,
      update_intervals_to_use_cached_stop_data = UPDATE_INTERVALS_TO_USE_CACHED_STOP_DATA\<rparr>"

text \<open>What the transit API answers during one iteration of the loop: the departures
  of each stop, and the stops near the address (\<open>get_nearby_stops\<close>).\<close>

record poll =
  poll_departures :: departures_api
  poll_nearby_stops :: "error + stop list"

text \<open>One iteration of \<open>while True\<close> in \<open>run\<close>: the new state and the data emitted
  to the display, or the exception that ends the thread.\<close>

definition run_iteration ::
  "poll \<Rightarrow> worker \<Rightarrow> error + (worker \<times> (string \<times> route_group) list)" where
  "run_iteration p w =
     bind (get_upcoming_departures (poll_departures p) (monitored_stop_list w)
             (address_coords w)) (\<lambda>(display_data, updated_stops_list).
       if update_intervals_to_use_cached_stop_data w \<noteq> 0
       then Inr (w\<lparr>monitored_stop_list := updated_stops_list,
                    update_intervals_to_use_cached_stop_data :=
                      update_intervals_to_use_cached_stop_data w - 1\<rparr>, display_data)
       else bind (poll_nearby_stops p) (\<lambda>nearby.
              Inr (w\<lparr>monitored_stop_list := nearby,
                      update_intervals_to_use_cached_stop_data :=
                        UPDATE_INTERVALS_TO_USE_CACHED_STOP_DATA\<rparr>, display_data)))"

text \<open>The loop never returns: \<open>run_loop polls n w\<close> is the state after its first
  \<open>n\<close> iterations, iteration \<open>i\<close> being answered by \<open>polls i\<close>.\<close>

fun run_loop :: "(nat \<Rightarrow> poll) \<Rightarrow> nat \<Rightarrow> worker \<Rightarrow> error + worker" where
  "run_loop polls 0 w = Inr w"
| "run_loop polls (Suc n) w =
     bind (run_loop polls n w) (\<lambda>w'.
     bind (run_iteration (polls n) w') (\<lambda>(w'', display_data). Inr w''))"

subsection \<open>BusStopApp\<close>

text \<open>\<open>sep.join(xs)\<close>\<close>

fun join :: "string \<Rightarrow> string list \<Rightarrow> string" where
  "join sep [] = []"
| "join sep [x] = x"
| "join sep (x # y # ys) = x @ sep @ join sep (y # ys)"

text \<open>The third label of a row; the clock is read once for the row.\<close>

definition label_text3 :: "datetime \<Rightarrow> route_group \<Rightarrow> error + string" where
  "label_text3 current_time info =
     bind (time_difference_strings current_time (g_arrival_times info)
             (Some (g_realtime_data info))) (\<lambda>tds.
       case tds of
         [] \<Rightarrow> Inl IndexError
       | t # rest \<Rightarrow>
           Inr (if length tds > 1
                then t @ [char_of (10 :: nat)] @ ''also '' @ join '',  '' rest
                else t))"

fun render_rows :: "datetime \<Rightarrow> (string \<times> route_group) list \<Rightarrow> error + string list" where
  "render_rows current_time [] = Inr []"
| "render_rows current_time (kv # kvs) =
     bind (label_text3 current_time (snd kv)) (\<lambda>l.
     bind (render_rows current_time kvs) (\<lambda>ls. Inr (l # ls)))"

fun render_pages ::
  "datetime \<Rightarrow> (string \<times> route_group) list \<Rightarrow> nat list \<Rightarrow> error + string list list" where
  "render_pages current_time items [] = Inr []"
| "render_pages current_time items (page # pages) =
     (let items_per_page = 4;
          start_index = page * items_per_page;
          end_index = min ((page + 1) * items_per_page) (length items)
      in bind (render_rows current_time (drop start_index (take end_index items))) (\<lambda>p.
         bind (render_pages current_time items pages) (\<lambda>ps. Inr (p # ps))))"

text \<open>The state of the window: the pages of the stacked widget are lists of row
  labels, \<open>stacked_widget.count()\<close> is their number.\<close>

record app =
  departure_info :: "(string \<times> route_group) list"
  current_page :: int
  stacked_widget :: "string list list"
  indicator_total_pages :: nat
  indicator_current_page :: int

definition app_init :: app where
  "app_init = \<lparr>departure_info = [], current_page = 0, stacked_widget = [],
               indicator_total_pages = 0, indicator_current_page = 0\<rparr>"

definition switch_page :: "app \<Rightarrow> app" where
  "switch_page s =
     (let total_pages = length (stacked_widget s)
      in if total_pages > 1
         then s\<lparr>current_page := (current_page s + 1) mod int total_pages,
                 indicator_current_page := (current_page s + 1) mod int total_pages\<rparr>
         else s)"

definition update_table ::
  "datetime \<Rightarrow> (string \<times> route_group) list \<Rightarrow> app \<Rightarrow> error + app" where
  "update_table current_time display_data s =
     (let items_per_page = 4;
          total_departures = length display_data;
          total_pages = (total_departures + items_per_page - 1) div items_per_page
      in bind (render_pages current_time display_data [0..<total_pages]) (\<lambda>pages.
           Inr (s\<lparr>departure_info := display_data,
                   stacked_widget := pages,
                   indicator_total_pages := total_pages,
                   current_page := 0,
                   indicator_current_page := 0\<rparr>)))"

section \<open>Vocabulary of the properties\<close>

text \<open>The number written by a string of decimal digits.\<close>

definition nat_of_digits :: "string \<Rightarrow> nat" where
  "nat_of_digits s = foldl (\<lambda>a c. 10 * a + digit_val c) 0 s"

definition all_digits :: "string \<Rightarrow> bool" where
  "all_digits s = list_all is_digit s"

text \<open>The trip ids that the stops of a list report, in the order of the loops.\<close>

definition reported_trip_ids :: "departures_api \<Rightarrow> stop list \<Rightarrow> int list" where
  "reported_trip_ids api stops =
     concat (map (\<lambda>stop. case api (stop_id stop) of
                            Inl e \<Rightarrow> []
                          | Inr ds \<Rightarrow> map (\<lambda>d. trip_id (dep_trip d)) ds) stops)"

text \<open>The whole minutes between the current time and a date, truncated towards zero,
  in exact arithmetic.\<close>

definition trunc_div :: "int \<Rightarrow> int \<Rightarrow> int" where
  "trunc_div a b = sgn a * (\<bar>a\<bar> div b)"

definition exact_minutes :: "datetime \<Rightarrow> datetime \<Rightarrow> int" where
  "exact_minutes current_time date =
     trunc_div (to_microseconds date - to_microseconds current_time) 60000000"

text \<open>The number that a float stands for.\<close>

definition float_value :: "nat \<times> int \<Rightarrow> real" where
  "float_value f = real (fst f) * 2 powi (snd f)"

text \<open>What \<open>time_difference_strings\<close> is to show for a difference of \<open>m\<close> whole
  minutes, and whether the date at an index counts as realtime data.\<close>

definition minutes_label :: "int \<Rightarrow> string" where
  "minutes_label m = (if m = 0 then ''Now'' else str_nat (nat \<bar>m\<bar>) @ '' min'')"

definition realtime_flag :: "bool list option \<Rightarrow> nat \<Rightarrow> bool" where
  "realtime_flag realtime_data i =
     (case realtime_data of None \<Rightarrow> False | Some fl \<Rightarrow> fl \<noteq> [] \<and> fl ! i)"

text \<open>The flag list is absent, empty, or has a flag for each of \<open>n\<close> dates.\<close>

definition flags_cover :: "bool list option \<Rightarrow> nat \<Rightarrow> bool" where
  "flags_cover realtime_data n =
     (case realtime_data of None \<Rightarrow> True | Some fl \<Rightarrow> fl = [] \<or> n \<le> length fl)"

text \<open>The MD5 digests of the byte strings \<open>42\<close> and the empty one; the digests of
  other byte strings do not matter here.\<close>

definition example_md5 :: "string \<Rightarrow> string" where
  "example_md5 b = (if b = ''42'' then ''a1d0c6e83f027327d8461063f4ac58a6''
                    else ''d41d8cd98f00b204e9800998ecf8427e'')"

subsection \<open>Example data and grouping\<close>

text \<open>Two stops on the equator, one at the starting point and one on the far side of
  the earth, and a departure after midnight that both report.\<close>

definition example_route :: route where
  "example_route = \<lparr>route_short_name = ''42'', route_type = 3, agency_name = ''SEPTA''\<rparr>"

definition example_departure :: "int \<Rightarrow> string \<Rightarrow> departure" where
  "example_departure tid time =
     \<lparr>dep_trip = \<lparr>trip_id = tid, trip_headsign = ''Downtown'', trip_route = example_route\<rparr>,
      dep_arrival = \<lparr>estimated = None, scheduled = time\<rparr>,
      service_date = ''2023-03-09'', dep_arrival_time = time\<rparr>"

definition near_stop :: stop where
  "near_stop = \<lparr>stop_id = 2, stop_name = ''Near'', stop_lon = 0, stop_lat = 0\<rparr>"

definition far_stop :: stop where
  "far_stop = \<lparr>stop_id = 1, stop_name = ''Far'', stop_lon = 180, stop_lat = 0\<rparr>"

definition example_api :: departures_api where
  "example_api sid = Inr [example_departure 7 ''24:05:00'']"

text \<open>The group key of a trip, and the trips of a list that fall in a group.\<close>

definition combo_of :: "int \<times> tracked \<Rightarrow> string" where
  "combo_of item = route_headsign_combo (t_departure (snd item))"

definition group_members :: "string \<Rightarrow> (int \<times> tracked) list \<Rightarrow> tracked list" where
  "group_members k items = map snd (filter (\<lambda>item. combo_of item = k) items)"

text \<open>The invariant of the grouping loop: the groups are those of the trips
  processed so far, each with its first four arrivals.\<close>

definition grouped :: "(string \<times> route_group) list \<Rightarrow> (int \<times> tracked) list \<Rightarrow> bool" where
  "grouped dd items =
     ((\<forall>item \<in> set items. map_of dd (combo_of item) \<noteq> None)
      \<and> (\<forall>k g. map_of dd k = Some g \<longrightarrow>
            group_members k items \<noteq> []
          \<and> g_arrival_times g = take 4 (map t_arrival_time (group_members k items))
          \<and> g_realtime_data g = take 4 (map t_realtime_data (group_members k items))
          \<and> g_full_stop g = t_closest_stop (hd (group_members k items))))"

definition example_group :: route_group where
  "example_group =
     \<lparr>g_route = ''42'', g_route_type = ''Bus '' @ bytes [195, 176, 197, 184, 197, 161],
      g_direction = ''Downtown'', g_stop = ''Near'',
      g_arrival_times = [\<lparr>year = 2023, month = 3, day = 10, hour = 0, minute = 5,
                          second = 0, microsecond = 0\<rparr>],
      g_realtime_data = [False], g_agency_name = ''SEPTA'', g_full_stop = near_stop\<rparr>"

text \<open>A stop where six trips of one route and direction are due, reported out of
  order; one of them has an estimated time.\<close>

definition example_realtime_departure :: "int \<Rightarrow> string \<Rightarrow> string \<Rightarrow> departure" where
  "example_realtime_departure tid est time =
     (example_departure tid time)\<lparr>dep_arrival := \<lparr>estimated = Some est, scheduled = time\<rparr>\<rparr>"

definition busy_api :: departures_api where
  "busy_api sid =
     Inr [example_departure 11 ''10:50:00'', example_departure 12 ''10:20:00'',
          example_departure 13 ''10:40:00'',
          example_realtime_departure 14 ''10:10:00'' ''10:08:00'',
          example_departure 15 ''10:30:00'', example_departure 16 ''10:05:00'']"

text \<open>A time of day on the service date of the examples, and what is stored for a
  trip seen at the near stop.\<close>

definition example_time :: "nat \<Rightarrow> nat \<Rightarrow> datetime" where
  "example_time h m = \<lparr>year = 2023, month = 3, day = 9, hour = h, minute = m, second = 0,
                        microsecond = 0\<rparr>"

definition example_tracked :: "departure \<Rightarrow> datetime \<Rightarrow> bool \<Rightarrow> tracked" where
  "example_tracked d dt flag =
     \<lparr>t_departure = d, t_closest_stop = near_stop, t_distance = 0, t_arrival_time = dt,
      t_realtime_data = flag\<rparr>"

text \<open>A trip before midnight that every stop reports.\<close>

definition morning_api :: departures_api where
  "morning_api sid = Inr [example_departure 7 ''10:50:00'']"

text \<open>The six trips in the order of the reports.\<close>

definition busy_trips :: "(int \<times> tracked) list" where
  "busy_trips =
     [(11, example_tracked (example_departure 11 ''10:50:00'') (example_time 10 50) False),
      (12, example_tracked (example_departure 12 ''10:20:00'') (example_time 10 20) False),
      (13, example_tracked (example_departure 13 ''10:40:00'') (example_time 10 40) False),
      (14, example_tracked (example_realtime_departure 14 ''10:10:00'' ''10:08:00'')
             (example_time 10 10) True),
      (15, example_tracked (example_departure 15 ''10:30:00'') (example_time 10 30) False),
      (16, example_tracked (example_departure 16 ''10:05:00'') (example_time 10 5) False)]"

text \<open>The group of the six trips.\<close>

definition busy_group :: route_group where
  "busy_group =
     \<lparr>g_route = ''42'', g_route_type = ''Bus '' @ bytes [195, 176, 197, 184, 197, 161],
      g_direction = ''Downtown'', g_stop = ''Near'',
      g_arrival_times = [example_time 10 5, example_time 10 10, example_time 10 20,
                         example_time 10 30],
      g_realtime_data = [False, True, False, False], g_agency_name = ''SEPTA'',
      g_full_stop = near_stop\<rparr>"

text \<open>The same trips in the order of their arrival times.\<close>

definition busy_sorted :: "(int \<times> tracked) list" where
  "busy_sorted =
     [(16, example_tracked (example_departure 16 ''10:05:00'') (example_time 10 5) False),
      (14, example_tracked (example_realtime_departure 14 ''10:10:00'' ''10:08:00'')
             (example_time 10 10) True),
      (12, example_tracked (example_departure 12 ''10:20:00'') (example_time 10 20) False),
      (15, example_tracked (example_departure 15 ''10:30:00'') (example_time 10 30) False),
      (13, example_tracked (example_departure 13 ''10:40:00'') (example_time 10 40) False),
      (11, example_tracked (example_departure 11 ''10:50:00'') (example_time 10 50) False)]"

subsection \<open>Display and worker examples\<close>

text \<open>A reading of the clock.\<close>

definition example_now :: datetime where
  "example_now = \<lparr>year = 2023, month = 3, day = 9, hour = 23, minute = 50, second = 0,
                   microsecond = 500000\<rparr>"

text \<open>A group that \<open>update_table\<close> can render: it has a first arrival time and a
  flag for each arrival time.\<close>

definition well_formed_group :: "route_group \<Rightarrow> bool" where
  "well_formed_group g =
     (g_arrival_times g \<noteq> [] \<and> length (g_realtime_data g) = length (g_arrival_times g))"

text \<open>The answers of the transit API during an iteration of the worker loop.\<close>

definition example_poll :: poll where
  "example_poll = \<lparr>poll_departures = example_api,
                    poll_nearby_stops = Inr [near_stop, far_stop]\<rparr>"

subsection \<open>Reports and distances\<close>

text \<open>The reports of a poll: each departure with the stop that reports it, in the
  order of the loops.\<close>

definition reports :: "departures_api \<Rightarrow> stop list \<Rightarrow> (stop \<times> departure) list" where
  "reports api stops =
     concat (map (\<lambda>stop. case api (stop_id stop) of
                            Inl e \<Rightarrow> []
                          | Inr ds \<Rightarrow> map (Pair stop) ds) stops)"

text \<open>The distance of a stop from the starting coordinates.\<close>

definition stop_distance :: "real \<times> real \<Rightarrow> stop \<Rightarrow> error + real" where
  "stop_distance c s = haversine (fst c) (snd c) (stop_lat s) (stop_lon s)"

text \<open>The invariant of the tracking loops: every entry is one of the reports
  processed so far, for the trip of its key, and no report of that trip comes from a
  closer stop.\<close>

definition closest :: "real \<times> real \<Rightarrow> (int \<times> tracked) list \<Rightarrow> (stop \<times> departure) list \<Rightarrow> bool"
  where
  "closest c d R =
     ((\<forall>s x. (s, x) \<in> set R \<longrightarrow> map_of d (trip_id (dep_trip x)) \<noteq> None)
      \<and> (\<forall>tid tv. map_of d tid = Some tv \<longrightarrow>
            trip_id (dep_trip (t_departure tv)) = tid
          \<and> stop_distance c (t_closest_stop tv) = Inr (t_distance tv)
          \<and> (t_closest_stop tv, t_departure tv) \<in> set R
          \<and> (\<forall>s x. (s, x) \<in> set R \<and> trip_id (dep_trip x) = tid \<longrightarrow>
                (\<exists>dx. stop_distance c s = Inr dx \<and> t_distance tv \<le> dx))))"

section \<open>Parsing dates and times\<close>

lemma char_eq_iff_of_char: "(c = d) = ((of_char c :: nat) = of_char d)"
  by simp

lemma digit_not_colon: "is_digit c \<Longrightarrow> c \<noteq> CHR '':''"
  by (auto simp: is_digit_def)

lemma digit_not_special:
  "is_digit c \<Longrightarrow> c \<noteq> CHR ''-'' \<and> c \<noteq> CHR ''+'' \<and> c \<noteq> CHR ''_'' \<and> c \<noteq> CHR '' '' \<and> \<not> is_space c
     \<and> \<not> is_c_space c"
  by (auto simp: is_digit_def is_space_def is_c_space_def Let_def)

lemma digit_eq_iff: "is_digit c \<Longrightarrow> (c = CHR ''0'') = (digit_val c = 0) \<and> (c = CHR ''1'') = (digit_val c = 1)
   \<and> (c = CHR ''2'') = (digit_val c = 2) \<and> (c = CHR ''3'') = (digit_val c = 3) \<and> (c = CHR ''6'') = (digit_val c = 6)"
  unfolding char_eq_iff_of_char [of c] by (auto simp: is_digit_def digit_val_def)

lemma int_digits_all:
  "list_all is_digit cs \<Longrightarrow> int_digits acc cs = Some (foldl (\<lambda>a c. 10 * a + digit_val c) acc cs)"
  by (induction acc cs rule: int_digits.induct) auto

lemma strip_digits: "all_digits s \<Longrightarrow> strip s = s"
proof (cases s rule: rev_cases)
  case Nil then show ?thesis by (simp add: strip_def)
next
  case (snoc xs x)
  assume a: "all_digits s"
  then have x: "\<not> is_c_space x" using snoc by (simp add: all_digits_def digit_not_special)
  have "dropWhile is_c_space s = s"
    using a x snoc by (cases xs) (auto simp: all_digits_def digit_not_special)
  then show ?thesis using x snoc by (simp add: strip_def)
qed

lemma py_int_digits:
  assumes "all_digits s" "s \<noteq> []" "length s \<le> 4300"
  shows "py_int s = Inr (int (nat_of_digits s))"
proof -
  obtain c cs where s: "s = c # cs" using assms(2) by (cases s) auto
  have c: "is_digit c" and cs: "list_all is_digit cs" using assms(1) s by (auto simp: all_digits_def)
  have "filter is_digit cs = cs" using cs by (simp add: list_all_iff)
  then have l: "\<not> max_str_digits < Suc (length (filter is_digit cs))"
    using assms(3) s by (simp add: max_str_digits_def)
  have "strip (c # cs) = c # cs" using strip_digits[OF assms(1)] s by simp
  then show ?thesis
    using c cs l digit_not_special[OF c]
    by (simp add: py_int_def s int_digits_all nat_of_digits_def)
qed

lemma split_colon_no: "CHR '':'' \<notin> set a \<Longrightarrow> split_colon a = [a]"
  by (induction a) auto

lemma split_colon_app: "CHR '':'' \<notin> set a \<Longrightarrow> split_colon (a @ CHR '':'' # r) = a # split_colon r"
  by (induction a) auto

lemma digit_val_le: "is_digit c \<Longrightarrow> digit_val c \<le> 9"
  by (auto simp: is_digit_def digit_val_def)

lemma all_digits_len2: "all_digits s \<Longrightarrow> length s = 2 \<Longrightarrow>
  \<exists>a b. s = [a, b] \<and> is_digit a \<and> is_digit b \<and> nat_of_digits s = 10 * digit_val a + digit_val b"
proof -
  assume a: "all_digits s" "length s = 2"
  have "length s = Suc (Suc 0)" using a by simp
  then obtain x y where "s = [x, y]"
    by (auto simp: length_Suc_conv)
  then show ?thesis using a by (simp add: all_digits_def nat_of_digits_def)
qed

lemma all_digits_len4: "all_digits s \<Longrightarrow> length s = 4 \<Longrightarrow>
  \<exists>a b c d. s = [a, b, c, d] \<and> is_digit a \<and> is_digit b \<and> is_digit c \<and> is_digit d
     \<and> nat_of_digits s = 1000 * digit_val a + 100 * digit_val b + 10 * digit_val c + digit_val d"
proof -
  assume a: "all_digits s" "length s = 4"
  have "length s = Suc (Suc (Suc (Suc 0)))" using a by simp
  then obtain x y z w where "s = [x, y, z, w]"
    by (auto simp: length_Suc_conv)
  then show ?thesis using a by (simp add: all_digits_def nat_of_digits_def)
qed

lemma re_m_two:
  assumes "is_digit a" "is_digit b" "1 \<le> 10 * digit_val a + digit_val b" "10 * digit_val a + digit_val b \<le> 12"
  shows "re_m (a # b # r) = Some (10 * digit_val a + digit_val b, r)"
proof -
  have b9: "digit_val b \<le> 9" using assms(2) by (rule digit_val_le)
  have a0: "(a = CHR ''0'') = (digit_val a = 0)" and a1: "(a = CHR ''1'') = (digit_val a = 1)"
    using digit_eq_iff[OF assms(1)] by simp_all
  consider "digit_val a = 0" | "digit_val a = 1" using assms(4) by linarith
  then show ?thesis
  proof cases
    case 1
    then show ?thesis using assms a0 a1 b9 by (simp add: in_range_def)
  next
    case 2
    then show ?thesis using assms a0 a1 b9 by (simp add: in_range_def)
  qed
qed

lemma re_d_two:
  assumes "is_digit a" "is_digit b" "1 \<le> 10 * digit_val a + digit_val b" "10 * digit_val a + digit_val b \<le> 31"
  shows "re_d (a # b # r) = Some (10 * digit_val a + digit_val b, r)"
proof -
  have b9: "digit_val b \<le> 9" using assms(2) by (rule digit_val_le)
  have a0: "(a = CHR ''0'') = (digit_val a = 0)" and a3: "(a = CHR ''3'') = (digit_val a = 3)"
    using digit_eq_iff[OF assms(1)] by simp_all
  consider "digit_val a = 0" | "digit_val a = 1" | "digit_val a = 2" | "digit_val a = 3"
    using assms(4) by linarith
  then show ?thesis
  proof cases
    case 1
    then show ?thesis using assms a0 a3 b9 by (simp add: in_range_def)
  next
    case 2
    then show ?thesis using assms a0 a3 b9 by (simp add: in_range_def)
  next
    case 3
    then show ?thesis using assms a0 a3 b9 by (simp add: in_range_def)
  next
    case 4
    then show ?thesis using assms a0 a3 b9 by (simp add: in_range_def)
  qed
qed

lemma days_in_month_le: "days_in_month y m \<le> 31"
  by (simp add: days_in_month_def)

lemma strptime_Ymd_digits:
  assumes "all_digits ys" "length ys = 4" "all_digits ms" "length ms = 2"
    and "all_digits ds" "length ds = 2"
    and v: "valid_date (nat_of_digits ys) (nat_of_digits ms) (nat_of_digits ds)"
  shows "strptime_Ymd (ys @ ''-'' @ ms @ ''-'' @ ds) =
    Inr \<lparr>year = nat_of_digits ys, month = nat_of_digits ms, day = nat_of_digits ds,
         hour = 0, minute = 0, second = 0, microsecond = 0\<rparr>"
proof -
  obtain a b c d where ys: "ys = [a, b, c, d]" "is_digit a" "is_digit b" "is_digit c" "is_digit d"
    "nat_of_digits ys = 1000 * digit_val a + 100 * digit_val b + 10 * digit_val c + digit_val d"
    using all_digits_len4[OF assms(1,2)] by blast
  obtain e f where ms: "ms = [e, f]" "is_digit e" "is_digit f"
    "nat_of_digits ms = 10 * digit_val e + digit_val f"
    using all_digits_len2[OF assms(3,4)] by blast
  obtain g h where ds: "ds = [g, h]" "is_digit g" "is_digit h"
    "nat_of_digits ds = 10 * digit_val g + digit_val h"
    using all_digits_len2[OF assms(5,6)] by blast
  have m: "re_m (e # f # r) = Some (nat_of_digits ms, r)" for r
    using re_m_two[OF ms(2,3)] v ms(4) by (simp add: valid_date_def)
  have "nat_of_digits ds \<le> 31"
    using v days_in_month_le[of "nat_of_digits ys" "nat_of_digits ms"] by (simp add: valid_date_def)
  then have d: "re_d (g # h # r) = Some (nat_of_digits ds, r)" for r
    using re_d_two[OF ds(2,3)] v ds(4) by (simp add: valid_date_def)
  have y: "re_Y (a # b # c # d # r) = Some (nat_of_digits ys, r)" for r
    using ys(2-6) by simp
  have "match_Ymd ([a, b, c, d] @ ''-'' @ [e, f] @ ''-'' @ [g, h])
      = Some ((nat_of_digits ys, nat_of_digits ms, nat_of_digits ds), [])"
    unfolding match_Ymd_def
    by (simp add: obind_def y m d del: re_Y.simps re_m.simps re_d.simps)
  then have "match_Ymd (ys @ ''-'' @ ms @ ''-'' @ ds)
      = Some ((nat_of_digits ys, nat_of_digits ms, nat_of_digits ds), [])"
    by (simp only: ys(1) ms(1) ds(1))
  then show ?thesis using v by (simp add: strptime_Ymd_def)
qed

lemma days_before_year_nat:
  "days_before_year (Suc p) = int p * 365 + int (p div 4) - int (p div 100) + int (p div 400)"
  by (simp add: days_before_year_def zdiv_int Let_def)

lemma dvd_400: "(400::nat) dvd n \<Longrightarrow> 100 dvd n \<and> 4 dvd n"
proof -
  assume a: "400 dvd n"
  have "(100::nat) dvd 400" "(4::nat) dvd 400" by simp_all
  then show ?thesis using a dvd_trans by blast
qed

lemma dvd_100: "(100::nat) dvd n \<Longrightarrow> 4 dvd n"
proof -
  assume a: "100 dvd n"
  have "(4::nat) dvd 100" by simp
  then show ?thesis using a dvd_trans by blast
qed

lemma is_leap_dvd: "is_leap y = (4 dvd y \<and> (\<not> 100 dvd y \<or> 400 dvd y))"
  by (simp add: is_leap_def dvd_eq_mod_eq_0)

lemma div_le_4_100: "(p::nat) div 100 \<le> p div 4"
  by (rule div_le_mono2) simp_all

lemma days_before_year_Suc:
  "1 \<le> y \<Longrightarrow> days_before_year (Suc y) = days_before_year y + (if is_leap y then 366 else 365)"
proof -
  assume "1 \<le> y"
  then obtain p where y: "y = Suc p" by (cases y) auto
  define A where "A = (4 dvd y)"
  define B where "B = (100 dvd y)"
  define C where "C = (400 dvd y)"
  define a where "a = int (p div 4)"
  define b where "b = int (p div 100)"
  define c where "c = int (p div 400)"
  have d: "int (Suc p div k) = (if k dvd Suc p then int (p div k) + 1 else int (p div k))" for k
    by (simp add: div_Suc dvd_eq_mod_eq_0)
  have 1: "days_before_year y = int p * 365 + a - b + c"
    unfolding y days_before_year_nat a_def b_def c_def ..
  have 2: "days_before_year (Suc y) = (int p + 1) * 365 + (if A then a + 1 else a)
      - (if B then b + 1 else b) + (if C then c + 1 else c)"
    unfolding A_def B_def C_def a_def b_def c_def y days_before_year_nat [of "Suc p"] d by simp
  have 3: "is_leap y = (A \<and> (\<not> B \<or> C))"
    unfolding A_def B_def C_def by (rule is_leap_dvd)
  have 4: "C \<longrightarrow> B" "B \<longrightarrow> A"
    unfolding A_def B_def C_def using dvd_400[of y] dvd_100[of y] by blast+
  show ?thesis
  proof (cases A)
    case False
    then show ?thesis using 4 unfolding 1 2 3 by (simp add: algebra_simps)
  next
    case True
    show ?thesis
    proof (cases B)
      case False
      then show ?thesis using 4 True unfolding 1 2 3 by (simp add: algebra_simps)
    next
      case B: True
      show ?thesis
      proof (cases C)
        case False
        then show ?thesis using B True unfolding 1 2 3 by (simp add: algebra_simps)
      next
        case C: True
        then show ?thesis using B True unfolding 1 2 3 by (simp add: algebra_simps)
      qed
    qed
  qed
qed

lemma days_before_month_Suc: "1 \<le> m \<Longrightarrow> days_before_month y (Suc m) = days_before_month y m + int (days_in_month y m)"
  by (simp add: days_before_month_def)

lemma days_before_month_1: "days_before_month y (Suc 0) = 0"
  by (simp add: days_before_month_def)

lemma upt_1_12: "[Suc 0..<12] = [1,2,3,4,5,6,7,8,9,10,11::nat]"
  by (simp add: upt_rec)

lemma days_before_month_12: "days_before_month y 12 = (if is_leap y then 335 else 334)"
  by (simp add: days_before_month_def upt_1_12 days_in_month_def)

lemma days_in_month_ge: "1 \<le> days_in_month y m"
  by (simp add: days_in_month_def)

lemma add_one_day_ordinal:
  assumes v: "valid_date (year dt) (month dt) (day dt)"
    and n: "\<not> (year dt = 9999 \<and> month dt = 12 \<and> day dt = 31)"
  shows "\<exists>dt'. add_one_day dt = Inr dt' \<and> toordinal dt' = toordinal dt + 1
     \<and> valid_date (year dt') (month dt') (day dt')
     \<and> hour dt' = hour dt \<and> minute dt' = minute dt \<and> second dt' = second dt
     \<and> microsecond dt' = microsecond dt"
proof (cases "day dt < days_in_month (year dt) (month dt)")
  case True
  then show ?thesis using v
    by (simp add: add_one_day_def toordinal_def ymd2ord_def valid_date_def)
next
  case False
  then have d: "day dt = days_in_month (year dt) (month dt)"
    using v by (simp add: valid_date_def)
  show ?thesis
  proof (cases "month dt < 12")
    case True
    have "days_before_month (year dt) (Suc (month dt))
        = days_before_month (year dt) (month dt) + int (days_in_month (year dt) (month dt))"
      using v by (simp add: days_before_month_Suc valid_date_def)
    then show ?thesis using v True d days_in_month_ge[of "year dt" "Suc (month dt)"]
      by (simp add: add_one_day_def toordinal_def ymd2ord_def valid_date_def)
  next
    case m: False
    then have m12: "month dt = 12" using v by (simp add: valid_date_def)
    then have d31: "day dt = 31" using d by (simp add: days_in_month_def)
    have y: "year dt < 9999" "1 \<le> year dt" using n m12 d31 v by (simp_all add: valid_date_def)
    have "days_before_year (Suc (year dt))
        = days_before_year (year dt) + (if is_leap (year dt) then 366 else 365)"
      using y(2) by (rule days_before_year_Suc)
    then show ?thesis using y m12 d31 d
      by (simp add: add_one_day_def toordinal_def ymd2ord_def valid_date_def
          days_before_month_12 days_before_month_1 days_in_month_def)
  qed
qed

lemma all_digits_no_colon: "all_digits s \<Longrightarrow> CHR '':'' \<notin> set s"
  using digit_not_colon by (auto simp: all_digits_def list_all_iff)

lemma split_colon_hms:
  assumes "all_digits hs" "all_digits ms" "all_digits ss"
  shows "split_colon (hs @ '':'' @ ms @ '':'' @ ss) = [hs, ms, ss]"
  using assms
  by (simp add: split_colon_app split_colon_no all_digits_no_colon del: split_colon.simps)

lemma fits_c_int_small: "0 \<le> v \<Longrightarrow> v \<le> 59 \<Longrightarrow> fits_c_int v"
  by (simp add: fits_c_int_def)

lemma replace_hms_ok:
  assumes "0 \<le> h" "h \<le> 23" "0 \<le> m" "m \<le> 59" "0 \<le> s" "s \<le> 59"
  shows "replace_hms dt h m s = Inr (dt\<lparr>hour := nat h, minute := nat m, second := nat s\<rparr>)"
  using assms by (simp add: replace_hms_def fits_c_int_def)

text \<open>
  Claim C9, as amended. For a service date \<open>YYYY-MM-DD\<close> that is a date of the
  calendar and an arrival time \<open>H:MM:SS\<close> with an hour of at most 4300 digits, the
  limit of \<open>int\<close>, and minute and second at most 59, \<open>get_corrected_datetime\<close>
  returns a datetime with the given minute and second. When
  the hour is at most 23 it is on the service date, with the given hour. When the hour
  exceeds 23 and the service date is not 9999-12-31, it is on the day after the service
  date (its ordinal is one more), with the hour taken modulo 24.
\<close>

theorem get_corrected_datetime_rollover:
  assumes ys: "all_digits ys" "length ys = 4"
    and ms: "all_digits ms" "length ms = 2"
    and ds: "all_digits ds" "length ds = 2"
    and hs: "all_digits hs" "hs \<noteq> []" "length hs \<le> 4300"
    and mins: "all_digits mins" "length mins = 2"
    and secs: "all_digits secs" "length secs = 2"
    and v: "valid_date (nat_of_digits ys) (nat_of_digits ms) (nat_of_digits ds)"
    and r: "nat_of_digits mins \<le> 59" "nat_of_digits secs \<le> 59"
    and n: "23 < nat_of_digits hs \<longrightarrow>
       \<not> (nat_of_digits ys = 9999 \<and> nat_of_digits ms = 12 \<and> nat_of_digits ds = 31)"
  shows "\<exists>dt. get_corrected_datetime (ys @ ''-'' @ ms @ ''-'' @ ds)
                 (hs @ '':'' @ mins @ '':'' @ secs) = Inr dt
          \<and> valid_date (year dt) (month dt) (day dt)
          \<and> hour dt = nat_of_digits hs mod 24
          \<and> minute dt = nat_of_digits mins \<and> second dt = nat_of_digits secs
          \<and> microsecond dt = 0
          \<and> (if nat_of_digits hs \<le> 23
              then year dt = nat_of_digits ys \<and> month dt = nat_of_digits ms
                 \<and> day dt = nat_of_digits ds \<and> hour dt = nat_of_digits hs
              else toordinal dt
                 = ymd2ord (nat_of_digits ys) (nat_of_digits ms) (nat_of_digits ds) + 1)"
proof -
  define d0 where "d0 = \<lparr>year = nat_of_digits ys, month = nat_of_digits ms,
     day = nat_of_digits ds, hour = 0, minute = 0, second = 0, microsecond = 0\<rparr>"
  have p: "strptime_Ymd (ys @ ''-'' @ ms @ ''-'' @ ds) = Inr d0"
    unfolding d0_def by (rule strptime_Ymd_digits[OF ys ms ds v])
  have sp: "split_colon (hs @ '':'' @ mins @ '':'' @ secs) = [hs, mins, secs]"
    by (rule split_colon_hms[OF hs(1) mins(1) secs(1)])
  have ih: "py_int hs = Inr (int (nat_of_digits hs))" by (rule py_int_digits[OF hs])
  have im: "py_int mins = Inr (int (nat_of_digits mins))"
    using mins by (intro py_int_digits) auto
  have isec: "py_int secs = Inr (int (nat_of_digits secs))"
    using secs by (intro py_int_digits) auto
  have g: "get_corrected_datetime (ys @ ''-'' @ ms @ ''-'' @ ds)
                 (hs @ '':'' @ mins @ '':'' @ secs)
      = (if 23 < nat_of_digits hs
         then bind (add_one_day d0) (\<lambda>d1. replace_hms d1 (int (nat_of_digits hs) mod 24)
                 (int (nat_of_digits mins)) (int (nat_of_digits secs)))
         else replace_hms d0 (int (nat_of_digits hs)) (int (nat_of_digits mins))
                 (int (nat_of_digits secs)))"
    unfolding get_corrected_datetime_def p sp by (simp add: bind_def ih im isec del: of_nat_mod)
  show ?thesis
  proof (cases "23 < nat_of_digits hs")
    case False
    have "replace_hms d0 (int (nat_of_digits hs)) (int (nat_of_digits mins))
                 (int (nat_of_digits secs))
        = Inr (d0\<lparr>hour := nat_of_digits hs, minute := nat_of_digits mins,
                 second := nat_of_digits secs\<rparr>)"
      using False r by (simp add: replace_hms_ok)
    then show ?thesis using False v unfolding g by (simp add: d0_def)
  next
    case True
    have v0: "valid_date (year d0) (month d0) (day d0)" using v by (simp add: d0_def)
    have n0: "\<not> (year d0 = 9999 \<and> month d0 = 12 \<and> day d0 = 31)"
      using n True by (simp add: d0_def)
    obtain d1 where d1: "add_one_day d0 = Inr d1" "toordinal d1 = toordinal d0 + 1"
      "valid_date (year d1) (month d1) (day d1)" "microsecond d1 = microsecond d0"
      using add_one_day_ordinal[OF v0 n0] by blast
    have h: "0 \<le> int (nat_of_digits hs) mod 24" "int (nat_of_digits hs) mod 24 \<le> 23"
      by simp_all
    have "replace_hms d1 (int (nat_of_digits hs) mod 24) (int (nat_of_digits mins))
                 (int (nat_of_digits secs))
        = Inr (d1\<lparr>hour := nat (int (nat_of_digits hs) mod 24), minute := nat_of_digits mins,
                 second := nat_of_digits secs\<rparr>)"
      using r h by (simp add: replace_hms_ok del: of_nat_mod)
    moreover have "nat (int (nat_of_digits hs) mod 24) = nat_of_digits hs mod 24"
      by (simp add: nat_mod_distrib)
    ultimately show ?thesis using True d1 unfolding g
      by (simp add: bind_def toordinal_def d0_def)
  qed
qed

theorem get_corrected_datetime_rollover_witness:
  "\<exists>dt. get_corrected_datetime ''2023-12-31'' ''24:05:09'' = Inr dt
     \<and> valid_date (year dt) (month dt) (day dt)
     \<and> hour dt = 0 \<and> minute dt = 5 \<and> second dt = 9 \<and> microsecond dt = 0
     \<and> toordinal dt = ymd2ord 2023 12 31 + 1"
  using get_corrected_datetime_rollover [of "''2023''" "''12''" "''31''" "''24''" "''05''" "''09''"]
  by (simp add: all_digits_def is_digit_def nat_of_digits_def digit_val_def valid_date_def
      days_in_month_def)

text \<open>
  Claim C9 as stated fails on the last day of the calendar: the day after 9999-12-31
  does not exist for the library, and the addition of a day raises OverflowError.
\<close>

theorem get_corrected_datetime_overflow:
  "get_corrected_datetime ''9999-12-31'' ''24:00:00'' = Inl OverflowError"
  by code_simp

section \<open>Colours and geocoding\<close>

lemma hex_digit_facts:
  assumes "hex_digit_val c = Some v"
  shows "v < 16" "\<not> is_c_space c" "c \<noteq> CHR ''-''" "c \<noteq> CHR ''+''" "c \<noteq> CHR ''x''"
    "c \<noteq> CHR ''X''"
proof -
  have r: "(48 \<le> (of_char c :: nat) \<and> (of_char c :: nat) \<le> 57)
         \<or> (97 \<le> (of_char c :: nat) \<and> (of_char c :: nat) \<le> 102)
         \<or> (65 \<le> (of_char c :: nat) \<and> (of_char c :: nat) \<le> 70)"
    using assms by (auto simp: hex_digit_val_def Let_def split: if_splits)
  show "v < 16" using assms by (auto simp: hex_digit_val_def Let_def split: if_splits)
  show "\<not> is_c_space c" using r by (auto simp: is_c_space_def Let_def)
  show "c \<noteq> CHR ''-''" using r by auto
  show "c \<noteq> CHR ''+''" using r by auto
  show "c \<noteq> CHR ''x''" using r by auto
  show "c \<noteq> CHR ''X''" using r by auto
qed

lemma py_int16_two:
  assumes a: "hex_digit_val a = Some x" and b: "hex_digit_val b = Some y"
  shows "py_int16 [a, b] = Inr (int (16 * x + y))"
proof -
  have s: "strip [a, b] = [a, b]"
    using hex_digit_facts(2)[OF a] hex_digit_facts(2)[OF b] by (simp add: strip_def)
  show ?thesis
    using hex_digit_facts[OF a] hex_digit_facts[OF b] a b
    by (simp add: py_int16_def s)
qed

lemma hexdigest_char:
  "c \<in> set ''0123456789abcdef'' \<Longrightarrow> \<exists>v. hex_digit_val c = Some v"
  by (auto simp: hex_digit_val_def)

lemma six_chars:
  "6 \<le> length d \<Longrightarrow> \<exists>a b c e f g r. d = a # b # c # e # f # g # r"
  by (auto simp: Suc_le_length_iff eval_nat_numeral)

text \<open>
  Claim C8, as amended. For every input string without a surrogate code point, whose
  UTF-8 bytes have an MD5 digest of 32 hexadecimal digits,
  \<open>string_to_dark_background_color\<close> returns a triple of integers, each of them in
  the range from 0 to 127. On a string with a surrogate code point it raises
  UnicodeEncodeError.
\<close>

theorem string_to_dark_background_color_range:
  "(list_ex is_surrogate input_string \<longrightarrow>
      string_to_dark_background_color md5_hexdigest input_string = Inl UnicodeEncodeError)
   \<and> (\<not> list_ex is_surrogate input_string
        \<and> is_hexdigest (md5_hexdigest (utf8 input_string)) \<longrightarrow>
      (\<exists>r g b. string_to_dark_background_color md5_hexdigest input_string = Inr (r, g, b)
         \<and> 0 \<le> r \<and> r \<le> 127 \<and> 0 \<le> g \<and> g \<le> 127 \<and> 0 \<le> b \<and> b \<le> 127))"
proof (intro conjI impI)
  assume "list_ex is_surrogate input_string"
  then show "string_to_dark_background_color md5_hexdigest input_string
      = Inl UnicodeEncodeError"
    by (simp add: string_to_dark_background_color_def encode_def bind_def)
next
  assume a: "\<not> list_ex is_surrogate input_string
      \<and> is_hexdigest (md5_hexdigest (utf8 input_string))"
  define d where "d = md5_hexdigest (utf8 input_string)"
  have len: "6 \<le> length d" and hex: "\<forall>c \<in> set d. c \<in> set ''0123456789abcdef''"
    using a unfolding d_def is_hexdigest_def list_all_iff by simp_all
  obtain c0 c1 c2 c3 c4 c5 rest where d: "d = c0 # c1 # c2 # c3 # c4 # c5 # rest"
    using six_chars[OF len] by blast
  have mem: "c0 \<in> set d" "c1 \<in> set d" "c2 \<in> set d" "c3 \<in> set d" "c4 \<in> set d" "c5 \<in> set d"
    unfolding d by simp_all
  obtain v0 v1 v2 v3 v4 v5 where v: "hex_digit_val c0 = Some v0" "hex_digit_val c1 = Some v1"
    "hex_digit_val c2 = Some v2" "hex_digit_val c3 = Some v3" "hex_digit_val c4 = Some v4"
    "hex_digit_val c5 = Some v5"
    using hex mem hexdigest_char by metis
  have e: "encode input_string = Inr (utf8 input_string)" using a by (simp add: encode_def)
  have "string_to_dark_background_color md5_hexdigest input_string
      = Inr (int (16 * v0 + v1) mod 128, int (16 * v2 + v3) mod 128, int (16 * v4 + v5) mod 128)"
    unfolding string_to_dark_background_color_def e
    by (simp add: bind_def Let_def d_def[symmetric] d py_int16_two[OF v(1,2)]
        py_int16_two[OF v(3,4)] py_int16_two[OF v(5,6)]
        del: of_nat_mod of_nat_add of_nat_mult)
  moreover have "0 \<le> (k::int) mod 128 \<and> k mod 128 \<le> 127" for k
    by (simp add: zle_diff1_eq[symmetric] del: zle_diff1_eq)
  ultimately show "\<exists>r g b. string_to_dark_background_color md5_hexdigest input_string
         = Inr (r, g, b)
       \<and> 0 \<le> r \<and> r \<le> 127 \<and> 0 \<le> g \<and> g \<le> 127 \<and> 0 \<le> b \<and> b \<le> 127"
    by blast
qed

lemma example_utf8: "utf8 [52, 50] = ''42''"
  by code_simp

theorem string_to_dark_background_color_range_witness:
  "string_to_dark_background_color example_md5 [52, 50] = Inr (33, 80, 70)
   \<and> string_to_dark_background_color example_md5 [52, 56832, 50] = Inl UnicodeEncodeError"
proof -
  have s: "\<not> list_ex is_surrogate [52, 50]" by (simp add: is_surrogate_def)
  have h: "is_hexdigest (example_md5 (utf8 [52, 50]))"
    by (simp add: example_utf8 example_md5_def is_hexdigest_def)
  have t: "list_ex is_surrogate [52, 56832, 50]" by (simp add: is_surrogate_def)
  from string_to_dark_background_color_range[of "[52, 50]" example_md5] s h
  obtain r g b where
    c: "string_to_dark_background_color example_md5 [52, 50] = Inr (r, g, b)"
    by blast
  have "string_to_dark_background_color example_md5 [52, 50] = Inr (33, 80, 70)"
    by (simp add: string_to_dark_background_color_def encode_def is_surrogate_def bind_def
        example_utf8 example_md5_def py_int16_def strip_def is_c_space_def hex_digit_val_def)
  moreover have "string_to_dark_background_color example_md5 [52, 56832, 50]
      = Inl UnicodeEncodeError"
    using string_to_dark_background_color_range[of "[52, 56832, 50]" example_md5] t by blast
  ultimately show ?thesis using c by simp
qed

text \<open>
  Claim C8 as stated fails on a string that holds a lone surrogate, for example the
  string of the single code point 0xD800: \<open>encode()\<close> raises UnicodeEncodeError and no
  colour is returned.
\<close>

theorem string_to_dark_background_color_surrogate:
  "string_to_dark_background_color example_md5 [55296] = Inl UnicodeEncodeError"
  by (simp add: string_to_dark_background_color_def encode_def is_surrogate_def bind_def)

text \<open>
  Claim C7. When the lookup service answers with an empty list,
  \<open>get_lat_long_from_string_address\<close> does not raise and returns the pair (0, 0);
  when it answers with a non-empty list, the result is the latitude and longitude of
  the first entry, converted to numbers.
\<close>

theorem get_lat_long_first_result:
  "(lookup address = Inr [] \<longrightarrow>
      get_lat_long_from_string_address lookup py_float address = Inr (0, 0))
   \<and> (\<forall>l ls a b. lookup address = Inr (l # ls) \<and> py_float (loc_lat l) = Inr a
          \<and> py_float (loc_lon l) = Inr b \<longrightarrow>
        get_lat_long_from_string_address lookup py_float address = Inr (a, b))"
  by (simp add: get_lat_long_from_string_address_def bind_def)

theorem get_lat_long_first_result_witness:
  "get_lat_long_from_string_address (\<lambda>a. Inr []) (\<lambda>s. Inl ValueError) ''nowhere'' = Inr (0, 0)
   \<and> get_lat_long_from_string_address
        (\<lambda>a. Inr [\<lparr>loc_lat = ''39.5'', loc_lon = ''-75''\<rparr>, \<lparr>loc_lat = ''1'', loc_lon = ''2''\<rparr>])
        (\<lambda>s. if s = ''39.5'' then Inr (79 / 2) else if s = ''-75'' then Inr (- 75)
              else Inl ValueError)
        ''3401 Market St Philadelphia'' = Inr (79 / 2, - 75)"
  using get_lat_long_first_result [of "\<lambda>a. Inr []" "''nowhere''" "\<lambda>s. Inl ValueError"]
    get_lat_long_first_result
      [of "\<lambda>a. Inr [\<lparr>loc_lat = ''39.5'', loc_lon = ''-75''\<rparr>, \<lparr>loc_lat = ''1'', loc_lon = ''2''\<rparr>]"
          "''3401 Market St Philadelphia''"
          "\<lambda>s. if s = ''39.5'' then Inr (79 / 2) else if s = ''-75'' then Inr (- 75)
              else Inl ValueError"]
  by simp

section \<open>Floating-point division\<close>

text \<open>
  The rounded quotient of \<open>float_div\<close> lies between any two floats that enclose the
  exact quotient. This bounds the two divisions of \<open>float_minutes\<close> from both sides.
\<close>

lemma bits_bounds: "0 < n \<Longrightarrow> 2 ^ (bits n - 1) \<le> n \<and> n < 2 ^ bits n"
proof (induction n rule: bits.induct)
  case (1 n)
  show ?case
  proof (cases "n div 2 = 0")
    case True
    then have "n = Suc 0" using "1.prems" by linarith
    then show ?thesis by (simp add: bits.simps[of "Suc 0"] bits.simps[of 0])
  next
    case False
    then have ih: "2 ^ (bits (n div 2) - 1) \<le> n div 2" "n div 2 < 2 ^ bits (n div 2)"
      using "1.IH" "1.prems" by auto
    have b: "bits n = Suc (bits (n div 2))" using "1.prems" by (simp add: bits.simps[of n])
    have p: "0 < bits (n div 2)" using False by (simp add: bits.simps[of "n div 2"])
    then obtain k where k: "bits (n div 2) = Suc k" by (cases "bits (n div 2)") auto
    have "2 * 2 ^ k \<le> 2 * (n div 2)" using ih(1) k by simp
    moreover have "2 * (n div 2) \<le> n" by linarith
    ultimately have l: "2 ^ (bits n - 1) \<le> n" unfolding b k by simp
    have "n < 2 * (n div 2) + 2" by linarith
    also have "\<dots> \<le> 2 * 2 ^ bits (n div 2)" using ih(2) by linarith
    finally have u: "n < 2 ^ bits n" unfolding b by simp
    show ?thesis using l u by simp
  qed
qed

lemma bits_pos: "0 < n \<Longrightarrow> 0 < bits n"
  by (simp add: bits.simps[of n])

lemma powi_nonneg: "0 \<le> k \<Longrightarrow> (2::real) powi k = 2 ^ nat k"
  by (simp add: power_int_def)

lemma powi_neg: "k < 0 \<Longrightarrow> (2::real) powi k = 1 / 2 ^ nat (- k)"
  by (simp add: power_int_def field_simps)

lemma powi_le_quotient:
  assumes "0 < d"
  shows "((2::real) powi k \<le> real n / real d)
     = (if 0 \<le> k then d * 2 ^ nat k \<le> n else d \<le> n * 2 ^ nat (- k))"
proof (cases "0 \<le> k")
  case True
  have "((2::real) ^ nat k \<le> real n / real d) = (real (d * 2 ^ nat k) \<le> real n)"
    using assms by (simp add: field_simps)
  also have "\<dots> = (d * 2 ^ nat k \<le> n)" by (rule of_nat_le_iff)
  finally show ?thesis using True by (simp add: powi_nonneg)
next
  case False
  have "(1 / (2::real) ^ nat (- k) \<le> real n / real d) = (real d \<le> real (n * 2 ^ nat (- k)))"
    using assms by (simp add: field_simps)
  also have "\<dots> = (d \<le> n * 2 ^ nat (- k))" by (rule of_nat_le_iff)
  finally show ?thesis using False by (simp add: powi_neg)
qed

lemma powi_Suc: "(2::real) powi (k + 1) = 2 * 2 powi k"
  by (simp add: power_int_add)

lemma powi_diff_nat: "(2::real) ^ a / 2 ^ b = 2 powi (int a - int b)"
  by (simp add: power_int_diff)

lemma floor_log2_bounds:
  assumes n: "0 < n" and d: "0 < d"
  shows "(2::real) powi (floor_log2 n d) \<le> real n / real d"
    and "real n / real d < 2 powi (floor_log2 n d + 1)"
proof -
  define k where "k = int (bits n) - int (bits d)"
  define v where "v = real n / real d"
  have bn: "2 ^ (bits n - 1) \<le> n" "n < 2 ^ bits n" using bits_bounds[OF n] by simp_all
  have bd: "2 ^ (bits d - 1) \<le> d" "d < 2 ^ bits d" using bits_bounds[OF d] by simp_all
  have rn: "(2::real) ^ (bits n - 1) \<le> real n" "real n < 2 ^ bits n"
    using bn by (metis of_nat_le_iff of_nat_numeral of_nat_power, metis of_nat_less_iff of_nat_numeral of_nat_power)
  have rd: "(2::real) ^ (bits d - 1) \<le> real d" "real d < 2 ^ bits d"
    using bd by (metis of_nat_le_iff of_nat_numeral of_nat_power, metis of_nat_less_iff of_nat_numeral of_nat_power)
  have dpos: "0 < real d" using d by simp
  have pn: "0 < bits n" and pd: "0 < bits d" using bits_pos n d by simp_all
  have up: "v < 2 powi (k + 1)"
  proof -
    have "v < 2 ^ bits n / real d" unfolding v_def using rn(2) dpos by (simp add: divide_strict_right_mono)
    also have "\<dots> \<le> 2 ^ bits n / 2 ^ (bits d - 1)"
      using rd(1) dpos by (simp add: frac_le)
    also have "\<dots> = 2 powi (int (bits n) - int (bits d - 1))" by (rule powi_diff_nat)
    also have "\<dots> = 2 powi (k + 1)" using pd by (simp add: k_def of_nat_diff algebra_simps)
    finally show ?thesis .
  qed
  have lo: "2 powi (k - 1) \<le> v"
  proof -
    have "(2::real) powi (k - 1) = 2 ^ (bits n - 1) / 2 ^ bits d"
      using pn by (simp add: powi_diff_nat k_def of_nat_diff algebra_simps)
    also have "\<dots> \<le> real n / 2 ^ bits d" using rn(1) by (simp add: divide_right_mono)
    also have "\<dots> \<le> v" unfolding v_def using rd(2) dpos n by (simp add: frac_le)
    finally show ?thesis .
  qed
  have c: "((2::real) powi k \<le> v)
     = (if 0 \<le> k then d * 2 ^ nat k \<le> n else d \<le> n * 2 ^ nat (- k))"
    unfolding v_def by (rule powi_le_quotient[OF d])
  show "(2::real) powi (floor_log2 n d) \<le> real n / real d"
    using c lo unfolding floor_log2_def k_def[symmetric] v_def[symmetric] Let_def
    by (auto split: if_splits)
  show "real n / real d < 2 powi (floor_log2 n d + 1)"
    using c up unfolding floor_log2_def k_def[symmetric] v_def[symmetric] Let_def
    by (auto split: if_splits)
qed

lemma rhe_lower: "0 < d \<Longrightarrow> i * d \<le> n \<Longrightarrow> i \<le> round_half_even n d"
proof -
  assume d: "0 < d" and h: "i * d \<le> n"
  have "i \<le> n div d" using d h by (simp add: less_eq_div_iff_mult_less_eq)
  then show ?thesis by (simp add: round_half_even_def Let_def)
qed

lemma rhe_upper: "0 < d \<Longrightarrow> n \<le> i * d \<Longrightarrow> round_half_even n d \<le> i"
proof -
  assume d: "0 < d" and h: "n \<le> i * d"
  have q: "n div d \<le> i" using d h by (metis div_le_mono div_mult_self_is_m)
  show ?thesis
  proof (cases "n mod d = 0")
    case True
    then show ?thesis using q d by (simp add: round_half_even_def Let_def)
  next
    case False
    have "n div d \<noteq> i"
    proof
      assume "n div d = i"
      then have "n = i * d + n mod d" by (metis div_mult_mod_eq)
      then show False using h False by linarith
    qed
    then have "n div d + 1 \<le> i" using q by linarith
    then show ?thesis by (simp add: round_half_even_def Let_def)
  qed
qed

lemma rhe_lower_real:
  "0 < d \<Longrightarrow> real i \<le> real n / real d \<Longrightarrow> real i \<le> real (round_half_even n d)"
proof -
  assume d: "0 < d" and h: "real i \<le> real n / real d"
  then have "real (i * d) \<le> real n" by (simp add: field_simps)
  then have "i * d \<le> n" by (simp only: of_nat_le_iff)
  then show ?thesis using rhe_lower[OF d] by simp
qed

lemma rhe_upper_real:
  "0 < d \<Longrightarrow> real n / real d \<le> real i \<Longrightarrow> real (round_half_even n d) \<le> real i"
proof -
  assume d: "0 < d" and h: "real n / real d \<le> real i"
  then have "real n \<le> real (i * d)" by (simp add: field_simps)
  then have "n \<le> i * d" by (simp only: of_nat_le_iff)
  then show ?thesis using rhe_upper[OF d] by simp
qed

text \<open>The mantissa of a quotient is the rounded scaled quotient.\<close>

lemma float_div_scaled:
  assumes d: "0 < d"
  shows "\<exists>N D. 0 < D \<and> fst (float_div n d) = round_half_even N D
     \<and> real N / real D = (real n / real d) / 2 powi (snd (float_div n d))
     \<and> snd (float_div n d) = floor_log2 n d - 52"
proof (cases "0 \<le> floor_log2 n d - 52")
  case True
  have "real n / real (d * 2 ^ nat (floor_log2 n d - 52))
      = (real n / real d) / 2 powi (floor_log2 n d - 52)"
    using True by (simp add: powi_nonneg)
  then show ?thesis using True d
    by (intro exI[of _ n] exI[of _ "d * 2 ^ nat (floor_log2 n d - 52)"])
       (simp add: float_div_def Let_def)
next
  case False
  have "real (n * 2 ^ nat (- (floor_log2 n d - 52))) / real d
      = (real n / real d) / 2 powi (floor_log2 n d - 52)"
    using False by (simp add: powi_neg)
  then show ?thesis using False d
    by (intro exI[of _ "n * 2 ^ nat (- (floor_log2 n d - 52))"] exI[of _ d])
       (simp add: float_div_def Let_def)
qed

lemma powi_pos: "0 < (2::real) powi e"
  by simp

lemma powi_split: "(2::real) powi (a + b) = 2 powi a * 2 powi b"
  by (simp add: power_int_add)

lemma powi_mono: "a \<le> b \<Longrightarrow> (2::real) powi a \<le> 2 powi b"
  by (simp add: power_int_increasing)

text \<open>A number with a mantissa below \<open>2^53\<close>, seen at the exponent of a quotient: either
  a whole number of units, or below \<open>2^52\<close> units.\<close>

lemma grid_point:
  assumes "z < 2 ^ 53"
  shows "(int j + e \<le> 0 \<and> real z / 2 ^ j / 2 powi e = real (z * 2 ^ nat (- e - int j)))
       \<or> (0 < int j + e \<and> real z / 2 ^ j < 2 ^ 52 * 2 powi e)"
proof (cases "int j + e \<le> 0")
  case True
  have "(2::real) ^ nat (- e - int j) = 2 powi (- e - int j)"
    using True by (simp add: powi_nonneg)
  also have "\<dots> = 2 powi (- e) * 2 powi (- int j)"
    using powi_split[of "- e" "- int j"] by simp
  also have "\<dots> = 1 / 2 powi e / 2 ^ j"
    by (simp add: power_int_minus field_simps)
  finally have "real (z * 2 ^ nat (- e - int j)) = real z * (1 / 2 powi e / 2 ^ j)"
    by simp
  then show ?thesis using True by (simp add: field_simps)
next
  case False
  have "real z < 2 ^ 53" using assms
    by (metis of_nat_less_iff of_nat_numeral of_nat_power)
  then have "real z / 2 ^ j < 2 ^ 53 / 2 ^ j" by (simp add: divide_strict_right_mono)
  also have "\<dots> = 2 powi (53 - int j)" using powi_diff_nat[of 53 j] by simp
  also have "\<dots> \<le> 2 powi (52 + e)" using False by (intro powi_mono) linarith
  also have "\<dots> = 2 ^ 52 * 2 powi e" using powi_split[of 52 e] by simp
  finally show ?thesis using False by simp
qed

lemma float_div_facts:
  assumes n: "0 < n" and d: "0 < d"
  obtains N D where "0 < D" "fst (float_div n d) = round_half_even N D"
    "real N / real D = (real n / real d) / 2 powi (snd (float_div n d))"
    "2 ^ 52 \<le> real N / real D" "2 ^ 52 \<le> real (fst (float_div n d))"
proof -
  obtain N D where ND: "0 < D" "fst (float_div n d) = round_half_even N D"
    "real N / real D = (real n / real d) / 2 powi (snd (float_div n d))"
    "snd (float_div n d) = floor_log2 n d - 52"
    using float_div_scaled[OF d, of n] by blast
  have "(2::real) powi (floor_log2 n d) \<le> real n / real d"
    by (rule floor_log2_bounds(1)[OF n d])
  moreover have "(2::real) powi (floor_log2 n d) = 2 ^ 52 * 2 powi (snd (float_div n d))"
    using powi_split[of 52 "floor_log2 n d - 52"] by (simp add: ND(4))
  ultimately have "2 ^ 52 * 2 powi (snd (float_div n d)) \<le> real n / real d" by simp
  then have u: "2 ^ 52 \<le> real N / real D"
    unfolding ND(3) by (simp only: pos_le_divide_eq[OF powi_pos])
  have "real ((2::nat) ^ 52) \<le> real N / real D" using u by simp
  then have "real ((2::nat) ^ 52) \<le> real (round_half_even N D)"
    by (rule rhe_lower_real[OF ND(1)])
  then have m: "2 ^ 52 \<le> real (fst (float_div n d))" using ND(2) by simp
  show ?thesis using that[OF ND(1,2,3) u m] .
qed

lemma float_div_ge:
  assumes n: "0 < n" and d: "0 < d" and z: "z < 2 ^ 53"
    and h: "real z / 2 ^ j \<le> real n / real d"
  shows "real z / 2 ^ j \<le> float_value (float_div n d)"
proof -
  define e where "e = snd (float_div n d)"
  define m where "m = fst (float_div n d)"
  obtain N D where ND: "0 < D" "m = round_half_even N D"
    "real N / real D = (real n / real d) / 2 powi e" "2 ^ 52 \<le> real m"
    unfolding m_def e_def using float_div_facts[OF n d] by metis
  have fv: "float_value (float_div n d) = real m * 2 powi e"
    by (simp add: float_value_def m_def e_def)
  from grid_point[OF z, of j e] show ?thesis
  proof (elim disjE conjE)
    assume i: "real z / 2 ^ j / 2 powi e = real (z * 2 ^ nat (- e - int j))"
    have "real z / 2 ^ j / 2 powi e \<le> real N / real D"
      unfolding ND(3) by (rule divide_right_mono[OF h]) simp
    then have "real (z * 2 ^ nat (- e - int j)) \<le> real m"
      unfolding i ND(2) by (rule rhe_lower_real[OF ND(1)])
    then have "real z / 2 ^ j / 2 powi e \<le> real m" unfolding i .
    then show ?thesis unfolding fv by (simp only: pos_divide_le_eq[OF powi_pos])
  next
    assume "real z / 2 ^ j < 2 ^ 52 * 2 powi e"
    also have "\<dots> \<le> real m * 2 powi e" using ND(4) by (simp add: mult_right_mono)
    finally show ?thesis unfolding fv by simp
  qed
qed

lemma float_div_le:
  assumes n: "0 < n" and d: "0 < d" and z: "z < 2 ^ 53"
    and h: "real n / real d \<le> real z / 2 ^ j"
  shows "float_value (float_div n d) \<le> real z / 2 ^ j"
proof -
  define e where "e = snd (float_div n d)"
  define m where "m = fst (float_div n d)"
  obtain N D where ND: "0 < D" "m = round_half_even N D"
    "real N / real D = (real n / real d) / 2 powi e" "2 ^ 52 \<le> real N / real D"
    unfolding m_def e_def using float_div_facts[OF n d] by metis
  have fv: "float_value (float_div n d) = real m * 2 powi e"
    by (simp add: float_value_def m_def e_def)
  from grid_point[OF z, of j e] show ?thesis
  proof (elim disjE conjE)
    assume i: "real z / 2 ^ j / 2 powi e = real (z * 2 ^ nat (- e - int j))"
    have "real N / real D \<le> real z / 2 ^ j / 2 powi e"
      unfolding ND(3) by (rule divide_right_mono[OF h]) simp
    then have "real m \<le> real (z * 2 ^ nat (- e - int j))"
      unfolding i ND(2) by (rule rhe_upper_real[OF ND(1)])
    then have "real m \<le> real z / 2 ^ j / 2 powi e" unfolding i .
    then show ?thesis unfolding fv by (simp only: pos_le_divide_eq[OF powi_pos])
  next
    assume a: "real z / 2 ^ j < 2 ^ 52 * 2 powi e"
    have "2 ^ 52 * 2 powi e \<le> real n / real d"
      using ND(4) unfolding ND(3) by (simp only: pos_le_divide_eq[OF powi_pos])
    then have False using a h by linarith
    then show ?thesis ..
  qed
qed

lemma float_floor:
  assumes lo: "real k \<le> float_value (m, e)" and up: "float_value (m, e) < real k + 1"
  shows "(if 0 \<le> e then m * 2 ^ nat e else m div 2 ^ nat (- e)) = k"
proof (cases "0 \<le> e")
  case True
  then have v: "float_value (m, e) = real (m * 2 ^ nat e)"
    by (simp add: float_value_def powi_nonneg)
  have "k \<le> m * 2 ^ nat e" using lo unfolding v by (simp only: of_nat_le_iff)
  moreover have "real (m * 2 ^ nat e) < real (k + 1)" using up unfolding v by simp
  then have "m * 2 ^ nat e < k + 1" by (simp only: of_nat_less_iff)
  ultimately show ?thesis using True by simp
next
  case False
  define p where "p = (2::nat) ^ nat (- e)"
  have pp: "0 < p" by (simp add: p_def)
  have v: "float_value (m, e) = real m / real p"
    using False by (simp add: float_value_def powi_neg p_def)
  have "real k * real p \<le> real m" using lo pp unfolding v by (simp add: field_simps)
  then have "real (k * p) \<le> real m" by simp
  then have "k * p \<le> m" by (simp only: of_nat_le_iff)
  then have 1: "k \<le> m div p" using pp by (simp add: less_eq_div_iff_mult_less_eq)
  have "real m < (real k + 1) * real p" using up pp unfolding v by (simp add: field_simps)
  then have "real m < real ((k + 1) * p)" by (simp add: algebra_simps)
  then have "m < (k + 1) * p" by (simp only: of_nat_less_iff)
  then have 2: "m div p < k + 1" using pp by (simp add: div_less_iff_less_mult)
  show ?thesis using False 1 2 by (simp add: p_def)
qed

text \<open>The two divisions and the truncation of \<open>float_minutes\<close>.\<close>

lemma float_minutes_steps:
  assumes a: "0 < a"
  obtains m1 e1 n2 d2 m2 e2 where
    "float_div a 1000000 = (m1, e1)" "0 < n2" "0 < d2"
    "real n2 / real d2 = float_value (m1, e1) / 60"
    "float_div n2 d2 = (m2, e2)"
    "float_minutes a = (if 0 \<le> e2 then m2 * 2 ^ nat e2 else m2 div 2 ^ nat (- e2))"
proof -
  obtain m1 e1 where f1: "float_div a 1000000 = (m1, e1)" by (cases "float_div a 1000000") auto
  have "2 ^ 52 \<le> real (fst (float_div a 1000000))"
    using float_div_facts[OF a, of 1000000] by (metis zero_less_numeral)
  then have m1: "0 < m1" unfolding f1 by (cases "m1 = 0") simp_all
  define n2 where "n2 = (if 0 \<le> e1 then m1 * 2 ^ nat e1 else m1)"
  define d2 where "d2 = (if 0 \<le> e1 then 60 else 60 * (2::nat) ^ nat (- e1))"
  obtain m2 e2 where f2: "float_div n2 d2 = (m2, e2)" by (cases "float_div n2 d2") auto
  have n2: "0 < n2" using m1 by (simp add: n2_def)
  have d2: "0 < d2" by (simp add: d2_def)
  have q: "real n2 / real d2 = float_value (m1, e1) / 60"
    by (cases "0 \<le> e1") (simp_all add: n2_def d2_def float_value_def powi_nonneg powi_neg)
  have r: "float_minutes a = (if 0 \<le> e2 then m2 * 2 ^ nat e2 else m2 div 2 ^ nat (- e2))"
    using a f2 by (cases "0 \<le> e1") (simp_all add: float_minutes_def f1 n2_def d2_def)
  show ?thesis using that[OF f1 n2 d2 q f2 r] .
qed

lemma float_minutes_lower:
  assumes k: "60000000 * k \<le> a" and kb: "k < 2 ^ 27" and k0: "0 < k"
  shows "k \<le> float_minutes a"
proof -
  have a: "0 < a" using k k0 by (cases a) simp_all
  obtain m1 e1 n2 d2 m2 e2 where
    f1: "float_div a 1000000 = (m1, e1)" and n2: "0 < n2" and d2: "0 < d2"
    and q: "real n2 / real d2 = float_value (m1, e1) / 60"
    and f2: "float_div n2 d2 = (m2, e2)"
    and r: "float_minutes a = (if 0 \<le> e2 then m2 * 2 ^ nat e2 else m2 div 2 ^ nat (- e2))"
    using float_minutes_steps[OF a] by blast
  have "real (60000000 * k) \<le> real a" using k by (simp only: of_nat_le_iff)
  then have h1: "real (60 * k) / 2 ^ 0 \<le> real a / real 1000000" by simp
  have "60 * k < 64 * 2 ^ 27" using kb by simp
  then have z1: "60 * k < 2 ^ 53" by simp
  have s: "real (60 * k) / 2 ^ 0 \<le> float_value (m1, e1)"
    using float_div_ge[OF a _ z1 h1] by (simp add: f1)
  then have h2: "real k / 2 ^ 0 \<le> real n2 / real d2" unfolding q by simp
  have z2: "k < 2 ^ 53" using kb by simp
  have t: "real k / 2 ^ 0 \<le> float_value (m2, e2)"
    using float_div_ge[OF n2 d2 z2 h2] by (simp add: f2)
  show ?thesis
  proof (cases "0 \<le> e2")
    case True
    then have "float_value (m2, e2) = real (m2 * 2 ^ nat e2)"
      by (simp add: float_value_def powi_nonneg)
    then have "real k \<le> real (m2 * 2 ^ nat e2)" using t by simp
    then have "k \<le> m2 * 2 ^ nat e2" by (simp only: of_nat_le_iff)
    then show ?thesis using True r by simp
  next
    case False
    define p where "p = (2::nat) ^ nat (- e2)"
    have pp: "0 < p" by (simp add: p_def)
    have v: "float_value (m2, e2) = real m2 / real p"
      using False by (simp add: float_value_def powi_neg p_def)
    have "real k * real p \<le> real m2" using t pp unfolding v by (simp add: field_simps)
    then have "real (k * p) \<le> real m2" by simp
    then have "k * p \<le> m2" by (simp only: of_nat_le_iff)
    then have "k \<le> m2 div p" using pp by (simp add: less_eq_div_iff_mult_less_eq)
    then show ?thesis using False r by (simp add: p_def)
  qed
qed

lemma float_minutes_exact:
  assumes b: "a < 60000000 * 2 ^ 27"
  shows "float_minutes a = a div 60000000"
proof (cases "a = 0")
  case True
  then show ?thesis by (simp add: float_minutes_def)
next
  case False
  then have a: "0 < a" by simp
  define k where "k = a div 60000000"
  have k1: "60000000 * k \<le> a" by (simp add: k_def)
  have k2: "a < 60000000 * (k + 1)"
    unfolding k_def using dividend_less_times_div[of 60000000 a] by simp
  have kb: "k < 2 ^ 27" unfolding k_def using b by (simp add: div_less_iff_less_mult)
  obtain m1 e1 n2 d2 m2 e2 where
    f1: "float_div a 1000000 = (m1, e1)" and n2: "0 < n2" and d2: "0 < d2"
    and q: "real n2 / real d2 = float_value (m1, e1) / 60"
    and f2: "float_div n2 d2 = (m2, e2)"
    and r: "float_minutes a = (if 0 \<le> e2 then m2 * 2 ^ nat e2 else m2 div 2 ^ nat (- e2))"
    using float_minutes_steps[OF a] by blast
  text \<open>First division, from below.\<close>
  have "real (60000000 * k) \<le> real a" using k1 by (simp only: of_nat_le_iff)
  then have h1: "real (60 * k) / 2 ^ 0 \<le> real a / real 1000000" by simp
  have "60 * k < 64 * 2 ^ 27" using kb by simp
  then have z1: "60 * k < 2 ^ 53" by simp
  have s_lo: "real (60 * k) \<le> float_value (m1, e1)"
    using float_div_ge[OF a _ z1 h1] by (simp add: f1)
  text \<open>First division, from above.\<close>
  define z where "z = 60 * (k + 1) * 2 ^ 20 - (1::nat)"
  have zr: "real z = 60 * (real k + 1) * 2 ^ 20 - 1" by (simp add: z_def of_nat_diff)
  have "60 * (k + 1) * 2 ^ 20 \<le> 64 * 2 ^ 27 * (2::nat) ^ 20" using kb by simp
  then have zb: "z < 2 ^ 53" by (simp add: z_def)
  have "a + 1 \<le> 60000000 * (k + 1)" using k2 by simp
  then have "real (a + 1) \<le> real (60000000 * (k + 1))" by (simp only: of_nat_le_iff)
  then have ar: "real a \<le> 60000000 * (real k + 1) - 1" by simp
  have "real a / real 1000000 \<le> 60 * (real k + 1) - 1 / 1000000" using ar by simp
  also have "\<dots> \<le> 60 * (real k + 1) - 1 / 2 ^ 20" by simp
  also have "\<dots> = real z / 2 ^ 20" by (simp add: zr field_simps)
  finally have h1': "real a / real 1000000 \<le> real z / 2 ^ 20" .
  have s_up: "float_value (m1, e1) \<le> real z / 2 ^ 20"
    using float_div_le[OF a _ zb h1'] by (simp add: f1)
  text \<open>Second division.\<close>
  have h2: "real k / 2 ^ 0 \<le> real n2 / real d2" unfolding q using s_lo by simp
  have z2: "k < 2 ^ 53" using kb by simp
  have t_lo: "real k \<le> float_value (m2, e2)"
    using float_div_ge[OF n2 d2 z2 h2] by (simp add: f2)
  define y where "y = (k + 1) * 2 ^ 26 - (1::nat)"
  have yr: "real y = (real k + 1) * 2 ^ 26 - 1" by (simp add: y_def of_nat_diff)
  have "(k + 1) * 2 ^ 26 \<le> 2 ^ 27 * (2::nat) ^ 26" using kb by simp
  then have yb: "y < 2 ^ 53" by (simp add: y_def)
  have "real n2 / real d2 \<le> real z / 2 ^ 20 / 60" unfolding q using s_up by simp
  also have "\<dots> = (real k + 1) - 1 / (60 * 2 ^ 20)" by (simp add: zr field_simps)
  also have "\<dots> \<le> (real k + 1) - 1 / 2 ^ 26" by simp
  also have "\<dots> = real y / 2 ^ 26" by (simp add: yr field_simps)
  finally have h2': "real n2 / real d2 \<le> real y / 2 ^ 26" .
  have "float_value (m2, e2) \<le> real y / 2 ^ 26"
    using float_div_le[OF n2 d2 yb h2'] by (simp add: f2)
  also have "\<dots> < real k + 1" by (simp add: yr field_simps)
  finally have t_up: "float_value (m2, e2) < real k + 1" .
  show ?thesis unfolding r k_def[symmetric] by (rule float_floor[OF t_lo t_up])
qed

lemma float_minutes_zero: "float_minutes a = 0 \<longleftrightarrow> a < 60000000"
proof
  assume z: "float_minutes a = 0"
  show "a < 60000000"
  proof (rule ccontr)
    assume "\<not> a < 60000000"
    then have "60000000 * 1 \<le> a" by simp
    then have "1 \<le> float_minutes a" by (rule float_minutes_lower) simp_all
    then show False using z by simp
  qed
next
  assume "a < 60000000"
  then show "float_minutes a = 0" by (simp add: float_minutes_exact)
qed

lemma bits_numeral: "bits (numeral w) = Suc (bits (numeral w div 2))"
  by (subst bits.simps) simp

lemma bits_0: "bits 0 = 0"
  by (subst bits.simps) simp

lemma bits_1: "bits (Suc 0) = Suc 0"
  by (subst bits.simps) (simp add: bits_0)

lemma bits_far_micro: "bits 315537897539999999 = 59"
  by (simp add: bits_numeral bits_0 bits_1)

lemma bits_million: "bits 1000000 = 20"
  by (simp add: bits_numeral bits_0 bits_1)

lemma float_div_far_seconds: "float_div 315537897539999999 1000000 = (5169772913295360, -14)"
  by (simp add: float_div_def floor_log2_def round_half_even_def bits_far_micro bits_million Let_def)

lemma bits_far_mantissa: "bits 5169772913295360 = 53"
  by (simp add: bits_numeral bits_0 bits_1)

lemma bits_far_divisor: "bits 983040 = 20"
  by (simp add: bits_numeral bits_0 bits_1)

lemma float_div_far_minutes: "float_div 5169772913295360 983040 = (5514424440848384, -20)"
  by (simp add: float_div_def floor_log2_def round_half_even_def bits_far_mantissa bits_far_divisor Let_def)

lemma float_minutes_far: "float_minutes 315537897539999999 = 5258964959"
  using float_div_far_minutes by (simp add: float_minutes_def float_div_far_seconds)

section \<open>Time labels\<close>

lemma digit_char: "n < 10 \<Longrightarrow> is_digit (char_of (48 + n)) \<and> digit_val (char_of (48 + n)) = n"
  by (simp add: is_digit_def digit_val_def)

lemma nat_of_digits_snoc: "nat_of_digits (xs @ [c]) = 10 * nat_of_digits xs + digit_val c"
  by (simp add: nat_of_digits_def)

lemma str_nat_digits:
  "all_digits (str_nat n) \<and> nat_of_digits (str_nat n) = n \<and> str_nat n \<noteq> []"
proof (induction n rule: str_nat.induct)
  case (1 n)
  show ?case
  proof (cases "n < 10")
    case True
    then show ?thesis
      using digit_char[of n]
      by (simp add: str_nat.simps[of n] all_digits_def nat_of_digits_def)
  next
    case False
    have m: "n mod 10 < 10" by simp
    from False 1 have ih: "all_digits (str_nat (n div 10))"
      "nat_of_digits (str_nat (n div 10)) = n div 10" by simp_all
    show ?thesis
      using False ih digit_char[OF m]
      by (simp add: str_nat.simps[of n] all_digits_def nat_of_digits_snoc)
  qed
qed

lemma minutes_label_Now: "(minutes_label m = ''Now'') = (m = 0)"
proof (cases "m = 0")
  case True
  then show ?thesis by (simp add: minutes_label_def)
next
  case False
  obtain c cs where s: "str_nat (nat \<bar>m\<bar>) = c # cs"
    using str_nat_digits[of "nat \<bar>m\<bar>"] by (cases "str_nat (nat \<bar>m\<bar>)") auto
  have "is_digit c" using str_nat_digits[of "nat \<bar>m\<bar>"] s by (simp add: all_digits_def)
  then have "c \<noteq> CHR ''N''" by (auto simp: is_digit_def)
  then show ?thesis using False s by (simp add: minutes_label_def)
qed

lemma time_string_ok:
  assumes "case realtime_data of None \<Rightarrow> True | Some fl \<Rightarrow> fl = [] \<or> i < length fl"
  shows "time_string current_time realtime_data i date =
     Inr (minutes_label (minutes_difference current_time date)
          @ (if realtime_flag realtime_data i then realtime_marker else []))"
proof (cases realtime_data)
  case None
  then show ?thesis by (simp add: time_string_def minutes_label_def realtime_flag_def)
next
  case (Some fl)
  show ?thesis
  proof (cases fl)
    case Nil
    then show ?thesis using Some
      by (simp add: time_string_def minutes_label_def realtime_flag_def)
  next
    case (Cons f fs)
    then have "i < length (f # fs)" using assms Some by simp
    then show ?thesis using Some Cons
      by (simp add: time_string_def minutes_label_def realtime_flag_def Let_def)
  qed
qed

lemma time_strings_from_ok:
  assumes "flags_cover realtime_data (k + length dates)"
  shows "\<exists>ss. time_strings_from current_time realtime_data k dates = Inr ss
     \<and> length ss = length dates
     \<and> (\<forall>i < length dates. ss ! i =
          minutes_label (minutes_difference current_time (dates ! i))
          @ (if realtime_flag realtime_data (k + i) then realtime_marker else []))"
  using assms
proof (induction dates arbitrary: k)
  case Nil
  then show ?case by simp
next
  case (Cons d ds)
  have c: "flags_cover realtime_data (Suc k + length ds)"
    using Cons.prems by simp
  have h: "case realtime_data of None \<Rightarrow> True | Some fl \<Rightarrow> fl = [] \<or> k < length fl"
    using Cons.prems by (auto simp: flags_cover_def split: option.splits)
  obtain ss where ss: "time_strings_from current_time realtime_data (Suc k) ds = Inr ss"
    "length ss = length ds"
    "\<forall>i < length ds. ss ! i =
          minutes_label (minutes_difference current_time (ds ! i))
          @ (if realtime_flag realtime_data (Suc k + i) then realtime_marker else [])"
    using Cons.IH[OF c] by blast
  have r: "time_strings_from current_time realtime_data k (d # ds)
      = Inr ((minutes_label (minutes_difference current_time d)
          @ (if realtime_flag realtime_data k then realtime_marker else [])) # ss)"
    by (simp add: time_string_ok[OF h] ss(1) bind_def)
  show ?case
  proof (intro exI conjI allI impI)
    show "time_strings_from current_time realtime_data k (d # ds)
      = Inr ((minutes_label (minutes_difference current_time d)
          @ (if realtime_flag realtime_data k then realtime_marker else [])) # ss)"
      by (rule r)
    show "length ((minutes_label (minutes_difference current_time d)
          @ (if realtime_flag realtime_data k then realtime_marker else [])) # ss)
        = length (d # ds)" using ss(2) by simp
  next
    fix i assume "i < length (d # ds)"
    then show "((minutes_label (minutes_difference current_time d)
          @ (if realtime_flag realtime_data k then realtime_marker else [])) # ss) ! i
       = minutes_label (minutes_difference current_time ((d # ds) ! i))
          @ (if realtime_flag realtime_data (k + i) then realtime_marker else [])"
      using ss(3) by (cases i) auto
  qed
qed


lemma minutes_difference_zero:
  "(minutes_difference current_time date = 0) = (exact_minutes current_time date = 0)"
proof -
  define t where "t = to_microseconds date - to_microseconds current_time"
  define a where "a = nat \<bar>t\<bar>"
  have ta: "\<bar>t\<bar> = int a" by (simp add: a_def)
  have 1: "(minutes_difference current_time date = 0) = (t = 0 \<or> a < 60000000)"
    by (simp add: minutes_difference_def Let_def t_def[symmetric] a_def[symmetric]
        sgn_eq_0_iff float_minutes_zero)
  have "(int a div 60000000 = 0) = (int (a div 60000000) = 0)" by (simp add: zdiv_int)
  also have "\<dots> = (a < 60000000)" by (simp add: div_eq_0_iff)
  finally have 2: "(exact_minutes current_time date = 0) = (t = 0 \<or> a < 60000000)"
    by (simp add: exact_minutes_def trunc_div_def t_def[symmetric] ta sgn_eq_0_iff)
  show ?thesis unfolding 1 2 ..
qed

lemma minutes_difference_exact:
  assumes "\<bar>exact_minutes current_time date\<bar> < 2 ^ 27"
  shows "minutes_difference current_time date = exact_minutes current_time date"
proof -
  define t where "t = to_microseconds date - to_microseconds current_time"
  define a where "a = nat \<bar>t\<bar>"
  have ta: "\<bar>t\<bar> = int a" by (simp add: a_def)
  have e: "exact_minutes current_time date = sgn t * int (a div 60000000)"
    by (simp add: exact_minutes_def trunc_div_def t_def[symmetric] ta zdiv_int)
  have "\<bar>sgn t * int (a div 60000000)\<bar> < 2 ^ 27" using assms unfolding e .
  then have "t \<noteq> 0 \<longrightarrow> a div 60000000 < 2 ^ 27"
    by (auto simp: abs_mult abs_sgn_eq split: if_splits)
  moreover have "t = 0 \<longrightarrow> a div 60000000 < 2 ^ 27" by (simp add: a_def)
  ultimately have "a div 60000000 < 2 ^ 27" by blast
  then have "a < 60000000 * 2 ^ 27" by (simp add: div_less_iff_less_mult)
  then have "float_minutes a = a div 60000000" by (rule float_minutes_exact)
  then show ?thesis
    unfolding e by (simp add: minutes_difference_def Let_def t_def[symmetric] a_def[symmetric])
qed

lemma realtime_marker_length: "length realtime_marker = 9"
  by (simp add: realtime_marker_def bytes_def)

text \<open>
  Claim C10, as amended. For every list of datetimes and every realtime flag list that
  is absent, empty or at least as long as the datetime list, \<open>time_difference_strings\<close>
  returns a list of the same length. Its element \<open>i\<close> is the label of the whole
  minutes that the program computes between date \<open>i\<close> and the current time, followed
  by the realtime marker, which is not empty, when flag \<open>i\<close> is set. The label is
  \<open>Now\<close> exactly when the truncated whole-minute difference is 0; otherwise it is
  the decimal numeral of the absolute value of the computed minutes followed by
  \<open> min\<close>. The computed minutes are the truncated whole-minute difference whenever
  that is below \<open>2 ^ 27\<close> minutes, about 255 years, in absolute value.
\<close>

theorem time_difference_strings_labels:
  assumes "flags_cover realtime_data (length date_list)"
  shows "\<exists>ss. time_difference_strings current_time date_list realtime_data = Inr ss
     \<and> length ss = length date_list
     \<and> (\<forall>i < length date_list.
          ss ! i = minutes_label (minutes_difference current_time (date_list ! i))
                   @ (if realtime_flag realtime_data i then realtime_marker else [])
          \<and> (realtime_flag realtime_data i \<longrightarrow>
               length (ss ! i) = length (minutes_label
                  (minutes_difference current_time (date_list ! i))) + 9)
          \<and> (minutes_label (minutes_difference current_time (date_list ! i)) = ''Now'')
             = (exact_minutes current_time (date_list ! i) = 0)
          \<and> (\<bar>exact_minutes current_time (date_list ! i)\<bar> < 2 ^ 27 \<longrightarrow>
               minutes_difference current_time (date_list ! i)
               = exact_minutes current_time (date_list ! i)))
     \<and> (\<forall>m. (minutes_label m = ''Now'') = (m = 0)
          \<and> (m \<noteq> 0 \<longrightarrow> (\<exists>ds. minutes_label m = ds @ '' min'' \<and> all_digits ds
                 \<and> nat_of_digits ds = nat \<bar>m\<bar>)))"
proof -
  have l: "(minutes_label m = ''Now'') = (m = 0)
          \<and> (m \<noteq> 0 \<longrightarrow> (\<exists>ds. minutes_label m = ds @ '' min'' \<and> all_digits ds
                 \<and> nat_of_digits ds = nat \<bar>m\<bar>))" for m
    using minutes_label_Now[of m] str_nat_digits[of "nat \<bar>m\<bar>"]
    by (auto simp: minutes_label_def)
  have "flags_cover realtime_data (0 + length date_list)" using assms by simp
  from time_strings_from_ok[OF this, of current_time]
  obtain ss where ss: "time_strings_from current_time realtime_data 0 date_list = Inr ss"
    "length ss = length date_list"
    "\<forall>i < length date_list. ss ! i =
          minutes_label (minutes_difference current_time (date_list ! i))
          @ (if realtime_flag realtime_data (0 + i) then realtime_marker else [])"
    by blast
  have e: "ss ! i = minutes_label (minutes_difference current_time (date_list ! i))
                   @ (if realtime_flag realtime_data i then realtime_marker else [])
          \<and> (realtime_flag realtime_data i \<longrightarrow>
               length (ss ! i) = length (minutes_label
                  (minutes_difference current_time (date_list ! i))) + 9)
          \<and> (minutes_label (minutes_difference current_time (date_list ! i)) = ''Now'')
             = (exact_minutes current_time (date_list ! i) = 0)
          \<and> (\<bar>exact_minutes current_time (date_list ! i)\<bar> < 2 ^ 27 \<longrightarrow>
               minutes_difference current_time (date_list ! i)
               = exact_minutes current_time (date_list ! i))"
    if i: "i < length date_list" for i
  proof -
    have 1: "ss ! i = minutes_label (minutes_difference current_time (date_list ! i))
                   @ (if realtime_flag realtime_data i then realtime_marker else [])"
      using ss(3) i by simp
    have 2: "realtime_flag realtime_data i \<longrightarrow>
               length (ss ! i) = length (minutes_label
                  (minutes_difference current_time (date_list ! i))) + 9"
      unfolding 1 by (simp add: realtime_marker_length)
    have 3: "(minutes_label (minutes_difference current_time (date_list ! i)) = ''Now'')
             = (exact_minutes current_time (date_list ! i) = 0)"
      unfolding minutes_label_Now by (rule minutes_difference_zero)
    have 4: "\<bar>exact_minutes current_time (date_list ! i)\<bar> < 2 ^ 27 \<longrightarrow>
               minutes_difference current_time (date_list ! i)
               = exact_minutes current_time (date_list ! i)"
      using minutes_difference_exact by blast
    show ?thesis using 1 2 3 4 by blast
  qed
  show ?thesis
    unfolding time_difference_strings_def using ss(1,2) e l by blast
qed

lemma str_nat_30: "str_nat 30 = ''30''"
  by code_simp

lemma float_minutes_example: "float_minutes 29500000 = 0" "float_minutes 1800500000 = 30"
  by (simp_all add: float_minutes_exact)

lemma example_minutes:
  "minutes_difference
     \<lparr>year = 2024, month = 3, day = 2, hour = 12, minute = 0, second = 0, microsecond = 500000\<rparr>
     \<lparr>year = 2024, month = 3, day = 2, hour = 12, minute = 0, second = 30, microsecond = 0\<rparr> = 0"
  "minutes_difference
     \<lparr>year = 2024, month = 3, day = 2, hour = 12, minute = 0, second = 0, microsecond = 500000\<rparr>
     \<lparr>year = 2024, month = 3, day = 2, hour = 11, minute = 30, second = 0, microsecond = 0\<rparr> = - 30"
  by (simp_all add: minutes_difference_def to_microseconds_def toordinal_def
      float_minutes_example)

lemma example_time_strings:
  "time_difference_strings
         \<lparr>year = 2024, month = 3, day = 2, hour = 12, minute = 0, second = 0,
          microsecond = 500000\<rparr>
         [\<lparr>year = 2024, month = 3, day = 2, hour = 12, minute = 0, second = 30, microsecond = 0\<rparr>,
          \<lparr>year = 2024, month = 3, day = 2, hour = 11, minute = 30, second = 0, microsecond = 0\<rparr>]
         (Some [True, False]) = Inr [''Now'' @ realtime_marker, ''30 min'']"
  by (simp add: time_difference_strings_def time_string_def example_minutes str_nat_30 bind_def Let_def)

theorem time_difference_strings_labels_witness:
  "flags_cover (Some [True, False]) (length
     [\<lparr>year = 2024, month = 3, day = 2, hour = 12, minute = 0, second = 30, microsecond = 0\<rparr>,
      \<lparr>year = 2024, month = 3, day = 2, hour = 11, minute = 30, second = 0, microsecond = 0\<rparr>])
   \<and> (\<exists>ss. time_difference_strings
         \<lparr>year = 2024, month = 3, day = 2, hour = 12, minute = 0, second = 0,
          microsecond = 500000\<rparr>
         [\<lparr>year = 2024, month = 3, day = 2, hour = 12, minute = 0, second = 30, microsecond = 0\<rparr>,
          \<lparr>year = 2024, month = 3, day = 2, hour = 11, minute = 30, second = 0, microsecond = 0\<rparr>]
         (Some [True, False]) = Inr ss \<and> length ss = 2
       \<and> ss = [''Now'' @ realtime_marker, ''30 min''] \<and> length (ss ! 0) = 12)"
proof -
  have h: "flags_cover (Some [True, False]) (length
     [\<lparr>year = 2024, month = 3, day = 2, hour = 12, minute = 0, second = 30, microsecond = 0\<rparr>,
      \<lparr>year = 2024, month = 3, day = 2, hour = 11, minute = 30, second = 0, microsecond = 0\<rparr>])"
    by (simp add: flags_cover_def)
  from time_difference_strings_labels
         [OF h, where current_time = "\<lparr>year = 2024, month = 3, day = 2, hour = 12,
            minute = 0, second = 0, microsecond = 500000\<rparr>"]
  obtain ss where s: "time_difference_strings
         \<lparr>year = 2024, month = 3, day = 2, hour = 12, minute = 0, second = 0,
          microsecond = 500000\<rparr>
         [\<lparr>year = 2024, month = 3, day = 2, hour = 12, minute = 0, second = 30, microsecond = 0\<rparr>,
          \<lparr>year = 2024, month = 3, day = 2, hour = 11, minute = 30, second = 0, microsecond = 0\<rparr>]
         (Some [True, False]) = Inr ss" "length ss = 2"
    by auto
  have e: "ss = [''Now'' @ realtime_marker, ''30 min'']"
    using s(1) unfolding example_time_strings by simp
  have "length (ss ! 0) = 12" unfolding e by (simp add: realtime_marker_length)
  then show ?thesis using h s e by blast
qed

lemma of_char_digits:
  "char_of (48::nat) = CHR ''0''" "char_of (49::nat) = CHR ''1''" "char_of (50::nat) = CHR ''2''"
  "char_of (51::nat) = CHR ''3''" "char_of (52::nat) = CHR ''4''" "char_of (53::nat) = CHR ''5''"
  "char_of (54::nat) = CHR ''6''" "char_of (55::nat) = CHR ''7''" "char_of (56::nat) = CHR ''8''"
  "char_of (57::nat) = CHR ''9''"
  by code_simp+

lemma str_nat_far: "str_nat 5258964959 = ''5258964959''"
  by (simp add: str_nat.simps of_char_digits)

lemma days_before_year_9999: "days_before_year 9999 = 3651694"
  by (simp add: days_before_year_def Let_def)

lemma far_microseconds:
  "to_microseconds \<lparr>year = 9999, month = 12, day = 31, hour = 23, minute = 59, second = 0,
                    microsecond = 0\<rparr>
   - to_microseconds \<lparr>year = Suc 0, month = Suc 0, day = Suc 0, hour = 0, minute = 0,
                      second = 0, microsecond = Suc 0\<rparr> = 315537897539999999"
  by (simp add: to_microseconds_def toordinal_def ymd2ord_def days_before_year_9999
      days_before_month_12 days_before_month_1 is_leap_def days_before_year_def)

text \<open>
  Claim C10 as stated fails for a date far from the current time. From the first
  microsecond after 0001-01-01 00:00:00 to 9999-12-31 23:59:00 there are 5258964958
  whole minutes and a fraction; the two floating-point divisions round the quotient up
  to 5258964959, which the program shows.
\<close>

theorem time_difference_strings_rounds_up:
  "time_difference_strings
     \<lparr>year = 1, month = 1, day = 1, hour = 0, minute = 0, second = 0, microsecond = 1\<rparr>
     [\<lparr>year = 9999, month = 12, day = 31, hour = 23, minute = 59, second = 0,
       microsecond = 0\<rparr>] None = Inr [''5258964959 min'']
   \<and> exact_minutes
     \<lparr>year = 1, month = 1, day = 1, hour = 0, minute = 0, second = 0, microsecond = 1\<rparr>
     \<lparr>year = 9999, month = 12, day = 31, hour = 23, minute = 59, second = 0,
       microsecond = 0\<rparr> = 5258964958"
  by (simp add: time_difference_strings_def time_string_def minutes_difference_def
      exact_minutes_def trunc_div_def far_microseconds float_minutes_far str_nat_far
      bind_def Let_def)

section \<open>Departures by trip and by route\<close>

lemma bind_Inr_iff: "(bind m f = Inr y) = (\<exists>x. m = Inr x \<and> f x = Inr y)"
  by (cases m) (simp_all add: bind_def)

lemma bind_Inr [simp]: "bind (Inr x) f = f x"
  by (simp add: bind_def)

lemma bind_Inl [simp]: "bind (Inl e) f = Inl e"
  by (simp add: bind_def)

lemma track_departure_shape:
  assumes "track_departure c s d x = Inr d'"
  shows "\<exists>dist. haversine (fst c) (snd c) (stop_lat s) (stop_lon s) = Inr dist
     \<and> (case map_of d (trip_id (dep_trip x)) of
          None \<Rightarrow> \<exists>v. d' = AList.update (trip_id (dep_trip x)) v d
                    \<and> t_distance v = dist \<and> t_closest_stop v = s \<and> t_departure v = x
        | Some cached \<Rightarrow>
            if dist < t_distance cached
            then \<exists>v. d' = AList.update (trip_id (dep_trip x)) v d
                    \<and> t_distance v = dist \<and> t_closest_stop v = s \<and> t_departure v = x
            else d' = d)"
proof -
  obtain dist where h: "haversine (fst c) (snd c) (stop_lat s) (stop_lon s) = Inr dist"
    using assms by (auto simp: track_departure_def Let_def bind_Inr_iff)
  show ?thesis
  proof (cases "map_of d (trip_id (dep_trip x))")
    case None
    then show ?thesis using assms h
      by (auto simp: track_departure_def Let_def bind_Inr_iff)
  next
    case (Some cached)
    then show ?thesis using assms h
      by (auto simp: track_departure_def Let_def bind_Inr_iff split: if_splits)
  qed
qed

lemma track_departure_keys:
  assumes "track_departure c s d x = Inr d'"
  shows "fst ` set d' = insert (trip_id (dep_trip x)) (fst ` set d)"
    and "distinct (map fst d) \<Longrightarrow> distinct (map fst d')"
proof -
  have k: "map_of d (trip_id (dep_trip x)) \<noteq> None \<Longrightarrow> trip_id (dep_trip x) \<in> fst ` set d"
    by (simp add: map_of_eq_None_iff)
  have "d' = d \<and> trip_id (dep_trip x) \<in> fst ` set d
      \<or> (\<exists>v. d' = AList.update (trip_id (dep_trip x)) v d)"
    using track_departure_shape[OF assms] k
    by (cases "map_of d (trip_id (dep_trip x))") (auto split: if_splits)
  then have "fst ` set d' = insert (trip_id (dep_trip x)) (fst ` set d)
      \<and> (distinct (map fst d) \<longrightarrow> distinct (map fst d'))"
  proof (elim disjE exE conjE)
    assume "d' = d" "trip_id (dep_trip x) \<in> fst ` set d"
    then show ?thesis by (simp add: insert_absorb)
  next
    fix v assume "d' = AList.update (trip_id (dep_trip x)) v d"
    then show ?thesis by (simp add: AList.dom_update AList.distinct_update)
  qed
  then show "fst ` set d' = insert (trip_id (dep_trip x)) (fst ` set d)"
    and "distinct (map fst d) \<Longrightarrow> distinct (map fst d')"
    by simp_all
qed

lemma track_departures_keys:
  "track_departures c s d xs = Inr d' \<Longrightarrow>
     fst ` set d' = fst ` set d \<union> (\<lambda>x. trip_id (dep_trip x)) ` set xs
     \<and> (distinct (map fst d) \<longrightarrow> distinct (map fst d'))"
proof (induction xs arbitrary: d)
  case Nil
  then show ?case by simp
next
  case (Cons x xs)
  then obtain d1 where d1: "track_departure c s d x = Inr d1"
    "track_departures c s d1 xs = Inr d'"
    by (auto simp: bind_Inr_iff)
  show ?case
    using Cons.IH[OF d1(2)] track_departure_keys[OF d1(1)] by auto
qed

lemma track_stops_keys:
  "track_stops api c d stops = Inr d' \<Longrightarrow>
     fst ` set d' = fst ` set d \<union> set (reported_trip_ids api stops)
     \<and> (distinct (map fst d) \<longrightarrow> distinct (map fst d'))"
proof (induction stops arbitrary: d)
  case Nil
  then show ?case by (simp add: reported_trip_ids_def)
next
  case (Cons s stops)
  then obtain ds d1 where s: "api (stop_id s) = Inr ds"
    "track_departures c s d ds = Inr d1" "track_stops api c d1 stops = Inr d'"
    by (auto simp: bind_Inr_iff)
  have r: "set (reported_trip_ids api (s # stops))
      = (\<lambda>x. trip_id (dep_trip x)) ` set ds \<union> set (reported_trip_ids api stops)"
    using s(1) by (simp add: reported_trip_ids_def)
  show ?case
    using Cons.IH[OF s(3)] track_departures_keys[OF s(2)] unfolding r by auto
qed

lemma get_next_departures_keys:
  assumes "get_next_departures_for_stop_list api stops starting_coords = Inr departures"
  shows "distinct (map fst departures)
     \<and> set (map fst departures) = set (reported_trip_ids api stops)"
  using track_stops_keys[OF assms[unfolded get_next_departures_for_stop_list_def]]
  by simp

lemma haversine_same: "haversine la lo la lo = Inr 0"
  by (simp add: haversine_def py_sqrt_def atan2_def Let_def)

lemma haversine_far: "haversine 0 0 0 180 = Inr (6371 * pi)"
  by (simp add: haversine_def py_sqrt_def atan2_def Let_def radians_def)

lemma example_corrected:
  "get_corrected_datetime ''2023-03-09'' ''24:05:00''
     = Inr \<lparr>year = 2023, month = 3, day = 10, hour = 0, minute = 5, second = 0,
            microsecond = 0\<rparr>"
  by code_simp

lemma example_strptime: "strptime_Ymd_HMS ''2023-03-09 24:05:00'' = Inl ValueError"
  by code_simp

lemma example_near_far:
  "get_next_departures_for_stop_list example_api [near_stop, far_stop] (0, 0)
     = Inr [(7, \<lparr>t_departure = example_departure 7 ''24:05:00'', t_closest_stop = near_stop,
                 t_distance = 0,
                 t_arrival_time = \<lparr>year = 2023, month = 3, day = 10, hour = 0, minute = 5,
                   second = 0, microsecond = 0\<rparr>,
                 t_realtime_data = False\<rparr>)]"
proof -
  have 1: "track_departure (0, 0) near_stop [] (example_departure 7 ''24:05:00'')
      = Inr [(7, \<lparr>t_departure = example_departure 7 ''24:05:00'', t_closest_stop = near_stop,
                 t_distance = 0,
                 t_arrival_time = \<lparr>year = 2023, month = 3, day = 10, hour = 0, minute = 5,
                   second = 0, microsecond = 0\<rparr>,
                 t_realtime_data = False\<rparr>)]"
    unfolding track_departure_def
    by (simp add: near_stop_def example_departure_def haversine_same example_corrected Let_def)
  have 2: "track_departure (0, 0) far_stop
       [(7, \<lparr>t_departure = example_departure 7 ''24:05:00'', t_closest_stop = near_stop,
                 t_distance = 0,
                 t_arrival_time = \<lparr>year = 2023, month = 3, day = 10, hour = 0, minute = 5,
                   second = 0, microsecond = 0\<rparr>,
                 t_realtime_data = False\<rparr>)] (example_departure 7 ''24:05:00'')
      = Inr [(7, \<lparr>t_departure = example_departure 7 ''24:05:00'', t_closest_stop = near_stop,
                 t_distance = 0,
                 t_arrival_time = \<lparr>year = 2023, month = 3, day = 10, hour = 0, minute = 5,
                   second = 0, microsecond = 0\<rparr>,
                 t_realtime_data = False\<rparr>)]"
    unfolding track_departure_def
    by (simp add: far_stop_def example_departure_def haversine_far Let_def)
  show ?thesis
    unfolding get_next_departures_for_stop_list_def
    by (simp add: example_api_def 1 2)
qed

lemma example_far_first:
  "track_departure (0, 0) far_stop [] (example_departure 7 ''24:05:00'')
      = Inr [(7, \<lparr>t_departure = example_departure 7 ''24:05:00'', t_closest_stop = far_stop,
                 t_distance = 6371 * pi,
                 t_arrival_time = \<lparr>year = 2023, month = 3, day = 10, hour = 0, minute = 5,
                   second = 0, microsecond = 0\<rparr>,
                 t_realtime_data = False\<rparr>)]"
  unfolding track_departure_def
  by (simp add: far_stop_def example_departure_def haversine_far example_corrected Let_def)

lemma example_near_second:
  "track_departure (0, 0) near_stop
       [(7, \<lparr>t_departure = example_departure 7 ''24:05:00'', t_closest_stop = far_stop,
                 t_distance = 6371 * pi,
                 t_arrival_time = \<lparr>year = 2023, month = 3, day = 10, hour = 0, minute = 5,
                   second = 0, microsecond = 0\<rparr>,
                 t_realtime_data = False\<rparr>)] (example_departure 7 ''24:05:00'')
      = Inl ValueError"
  unfolding track_departure_def
  using example_strptime
  by (simp add: near_stop_def example_departure_def haversine_same Let_def)

text \<open>
  Claim C1, at an input where the code departs from it. Two stops report trip 7, which
  arrives at 24:05:00 of the service day, and the second stop of the list is the closer
  one. The first report is stored with the time corrected to 00:05:00 of the next day;
  the second report is the closer one and is parsed without the correction, which
  raises ValueError: no entry is returned for the trip.
\<close>

theorem get_next_departures_closer_stop_raises:
  "get_next_departures_for_stop_list example_api [far_stop, near_stop] (0, 0) = Inl ValueError"
  unfolding get_next_departures_for_stop_list_def
  by (simp add: example_api_def example_far_first example_near_second)

lemma morning_corrected:
  "get_corrected_datetime ''2023-03-09'' ''10:50:00'' = Inr (example_time 10 50)"
  "strptime_Ymd_HMS ''2023-03-09 10:50:00'' = Inr (example_time 10 50)"
  unfolding example_time_def by code_simp+

lemma morning_far_near:
  "get_next_departures_for_stop_list morning_api [far_stop, near_stop] (0, 0)
     = Inr [(7, example_tracked (example_departure 7 ''10:50:00'') (example_time 10 50) False)]"
proof -
  have 1: "track_departure (0, 0) far_stop [] (example_departure 7 ''10:50:00'')
      = Inr [(7, \<lparr>t_departure = example_departure 7 ''10:50:00'', t_closest_stop = far_stop,
                 t_distance = 6371 * pi, t_arrival_time = example_time 10 50,
                 t_realtime_data = False\<rparr>)]"
    unfolding track_departure_def
    by (simp add: far_stop_def example_departure_def haversine_far morning_corrected Let_def)
  have 2: "track_departure (0, 0) near_stop
       [(7, \<lparr>t_departure = example_departure 7 ''10:50:00'', t_closest_stop = far_stop,
                 t_distance = 6371 * pi, t_arrival_time = example_time 10 50,
                 t_realtime_data = False\<rparr>)] (example_departure 7 ''10:50:00'')
      = Inr [(7, example_tracked (example_departure 7 ''10:50:00'') (example_time 10 50)
                   False)]"
    unfolding track_departure_def
    using morning_corrected(2)
    by (simp add: near_stop_def example_departure_def example_tracked_def haversine_same
        Let_def)
  show ?thesis
    unfolding get_next_departures_for_stop_list_def
    by (simp add: morning_api_def 1 2)
qed

text \<open>
  Claim C2, at an input where the code departs from it. The two stops of the list both
  report trip 7 and no other trip, so the claim asks for a result with the single key 7.
  With the closer stop second in the list the function raises ValueError and returns no
  entry for the trip; with the closer stop first it returns the one entry. For a trip
  before midnight the two reports are merged into one entry, at the closer stop, also
  with the closer stop second.
\<close>

theorem get_next_departures_trip_without_entry:
  "set (reported_trip_ids example_api [far_stop, near_stop]) = {7}
   \<and> get_next_departures_for_stop_list example_api [far_stop, near_stop] (0, 0)
       = Inl ValueError
   \<and> (\<exists>departures.
         get_next_departures_for_stop_list example_api [near_stop, far_stop] (0, 0)
           = Inr departures
       \<and> map fst departures = [7])
   \<and> get_next_departures_for_stop_list morning_api [far_stop, near_stop] (0, 0)
       = Inr [(7, example_tracked (example_departure 7 ''10:50:00'') (example_time 10 50)
                    False)]"
proof -
  have "set (reported_trip_ids example_api [far_stop, near_stop]) = {7}"
    by (simp add: reported_trip_ids_def example_api_def example_departure_def)
  moreover have "get_next_departures_for_stop_list example_api [far_stop, near_stop] (0, 0)
      = Inl ValueError"
    unfolding get_next_departures_for_stop_list_def
    by (simp add: example_api_def example_far_first example_near_second)
  ultimately show ?thesis using example_near_far morning_far_near by simp
qed

lemma group_members_snoc:
  "group_members k (items @ [item]) =
     (if combo_of item = k then group_members k items @ [snd item] else group_members k items)"
  by (simp add: group_members_def)

lemma group_members_empty:
  "(group_members k items = []) = (\<forall>item \<in> set items. combo_of item \<noteq> k)"
  by (auto simp: group_members_def filter_empty_conv)

lemma take4_snoc_short: "length xs < 4 \<Longrightarrow> take 4 (xs @ [x]) = xs @ [x]"
  by simp

lemma take4_snoc_full: "4 \<le> length xs \<Longrightarrow> take 4 (xs @ [x]) = take 4 xs"
  by simp

lemma store_entry_shape:
  assumes "store_entry dd item = Inr dd'"
  shows "case map_of dd (combo_of item) of
           None \<Rightarrow> \<exists>g. dd' = AList.update (combo_of item) g dd
                  \<and> g_arrival_times g = [t_arrival_time (snd item)]
                  \<and> g_realtime_data g = [t_realtime_data (snd item)]
                  \<and> g_full_stop g = t_closest_stop (snd item)
         | Some entry \<Rightarrow>
             if length (g_arrival_times entry) < 4
             then dd' = AList.update (combo_of item)
                    (entry\<lparr>g_arrival_times := g_arrival_times entry @ [t_arrival_time (snd item)],
                           g_realtime_data := g_realtime_data entry @ [t_realtime_data (snd item)]\<rparr>)
                    dd
             else dd' = dd"
  using assms
  by (cases "map_of dd (combo_of item)")
     (auto simp: store_entry_def combo_of_def Let_def bind_Inr_iff split: if_splits)

lemma store_entry_distinct:
  "store_entry dd item = Inr dd' \<Longrightarrow> distinct (map fst dd) \<Longrightarrow> distinct (map fst dd')"
  using store_entry_shape[of dd item dd']
  by (cases "map_of dd (combo_of item)") (auto simp: AList.distinct_update split: if_splits)

lemma store_entry_grouped:
  assumes s: "store_entry dd item = Inr dd'" and g: "grouped dd items"
  shows "grouped dd' (items @ [item])"
proof (cases "map_of dd (combo_of item)")
  case None
  then obtain g0 where g0: "dd' = AList.update (combo_of item) g0 dd"
    "g_arrival_times g0 = [t_arrival_time (snd item)]"
    "g_realtime_data g0 = [t_realtime_data (snd item)]"
    "g_full_stop g0 = t_closest_stop (snd item)"
    using store_entry_shape[OF s] by auto
  have e: "group_members (combo_of item) items = []"
    using g None unfolding grouped_def group_members_empty by metis
  have m: "map_of dd' = (map_of dd)(combo_of item \<mapsto> g0)"
    unfolding g0(1) by (rule AList.update_conv')
  show ?thesis
    unfolding grouped_def m
    using g g0(2-4) e
    by (auto simp: grouped_def group_members_snoc)
next
  case (Some entry)
  have old: "group_members (combo_of item) items \<noteq> []"
    "g_arrival_times entry = take 4 (map t_arrival_time (group_members (combo_of item) items))"
    "g_realtime_data entry = take 4 (map t_realtime_data (group_members (combo_of item) items))"
    "g_full_stop entry = t_closest_stop (hd (group_members (combo_of item) items))"
    using g Some unfolding grouped_def by blast+
  show ?thesis
  proof (cases "length (g_arrival_times entry) < 4")
    case True
    define e' where "e' = entry\<lparr>g_arrival_times := g_arrival_times entry @ [t_arrival_time (snd item)],
                           g_realtime_data := g_realtime_data entry @ [t_realtime_data (snd item)]\<rparr>"
    have dd': "dd' = AList.update (combo_of item) e' dd"
      using store_entry_shape[OF s] Some True unfolding e'_def by simp
    have m: "map_of dd' = (map_of dd)(combo_of item \<mapsto> e')"
      unfolding dd' by (rule AList.update_conv')
    have len: "length (group_members (combo_of item) items) < 4"
      using True old(2) by (simp add: min_def split: if_splits)
    have a: "g_arrival_times e'
        = take 4 (map t_arrival_time (group_members (combo_of item) (items @ [item])))"
      using len old(2) by (simp add: e'_def group_members_snoc)
    have r: "g_realtime_data e'
        = take 4 (map t_realtime_data (group_members (combo_of item) (items @ [item])))"
      using len old(3) by (simp add: e'_def group_members_snoc)
    have f: "g_full_stop e' = t_closest_stop (hd (group_members (combo_of item) (items @ [item])))"
      using old(1,4) by (simp add: e'_def group_members_snoc)
    have ne: "group_members (combo_of item) (items @ [item]) \<noteq> []"
      by (simp add: group_members_snoc)
    show ?thesis
      unfolding grouped_def m
      using g a r f ne
      by (auto simp: grouped_def group_members_snoc)
  next
    case False
    have dd': "dd' = dd" using store_entry_shape[OF s] Some False by simp
    have len: "4 \<le> length (group_members (combo_of item) items)"
      using False old(2) by (simp add: min_def split: if_splits)
    have a: "take 4 (map t_arrival_time (group_members (combo_of item) (items @ [item])))
        = take 4 (map t_arrival_time (group_members (combo_of item) items))"
      using len by (simp add: group_members_snoc)
    have r: "take 4 (map t_realtime_data (group_members (combo_of item) (items @ [item])))
        = take 4 (map t_realtime_data (group_members (combo_of item) items))"
      using len by (simp add: group_members_snoc)
    have f: "hd (group_members (combo_of item) (items @ [item]))
        = hd (group_members (combo_of item) items)"
      using old(1) by (simp add: group_members_snoc)
    show ?thesis
      unfolding grouped_def dd'
    proof (intro conjI ballI allI impI)
      fix it assume "it \<in> set (items @ [item])"
      then show "map_of dd (combo_of it) \<noteq> None"
        using g Some by (auto simp: grouped_def)
    next
      fix k g' assume kg: "map_of dd k = Some g'"
      then have o: "group_members k items \<noteq> []"
        "g_arrival_times g' = take 4 (map t_arrival_time (group_members k items))"
        "g_realtime_data g' = take 4 (map t_realtime_data (group_members k items))"
        "g_full_stop g' = t_closest_stop (hd (group_members k items))"
        using g unfolding grouped_def by blast+
      show "group_members k (items @ [item]) \<noteq> []"
        using o(1) by (simp add: group_members_snoc)
      show "g_arrival_times g' = take 4 (map t_arrival_time (group_members k (items @ [item])))"
        using o(2) a by (cases "combo_of item = k") (simp_all add: group_members_snoc)
      show "g_realtime_data g' = take 4 (map t_realtime_data (group_members k (items @ [item])))"
        using o(3) r by (cases "combo_of item = k") (simp_all add: group_members_snoc)
      show "g_full_stop g' = t_closest_stop (hd (group_members k (items @ [item])))"
        using o(4) f by (cases "combo_of item = k") (simp_all add: group_members_snoc)
    qed
  qed
qed

lemma store_entries_grouped:
  "store_entries dd xs = Inr dd' \<Longrightarrow> grouped dd pre \<Longrightarrow> distinct (map fst dd) \<Longrightarrow>
     grouped dd' (pre @ xs) \<and> distinct (map fst dd')"
proof (induction xs arbitrary: dd pre)
  case Nil
  then show ?case by simp
next
  case (Cons x xs)
  then obtain d1 where d1: "store_entry dd x = Inr d1" "store_entries d1 xs = Inr dd'"
    by (auto simp: bind_Inr_iff)
  have "grouped dd' ((pre @ [x]) @ xs) \<and> distinct (map fst dd')"
    using Cons.IH[OF d1(2) store_entry_grouped[OF d1(1) Cons.prems(2)]
        store_entry_distinct[OF d1(1) Cons.prems(3)]] .
  then show ?case by simp
qed

lemma grouped_empty: "grouped [] []"
  by (simp add: grouped_def)

lemma get_upcoming_departures_grouped:
  assumes "get_upcoming_departures api stop_list coords = Inr (dd, upd)"
  shows "\<exists>all. get_next_departures_for_stop_list api stop_list coords = Inr all
     \<and> grouped dd (sorted_departures all) \<and> distinct (map fst dd)
     \<and> upd = monitored_stops [] dd"
proof -
  obtain all where a: "get_next_departures_for_stop_list api stop_list coords = Inr all"
    "store_entries [] (sorted_departures all) = Inr dd" "upd = monitored_stops [] dd"
    using assms by (auto simp: get_upcoming_departures_def bind_Inr_iff)
  have "grouped dd ([] @ sorted_departures all) \<and> distinct (map fst dd)"
    using store_entries_grouped[OF a(2) grouped_empty] by simp
  then show ?thesis using a by simp
qed

lemma grouped_member:
  assumes "grouped dd items" "distinct (map fst dd)" "(k, g) \<in> set dd"
  shows "group_members k items \<noteq> []"
    and "g_arrival_times g = take 4 (map t_arrival_time (group_members k items))"
    and "g_realtime_data g = take 4 (map t_realtime_data (group_members k items))"
    and "g_full_stop g = t_closest_stop (hd (group_members k items))"
proof -
  have "map_of dd k = Some g" using assms(2,3) by (rule map_of_is_SomeI)
  then show "group_members k items \<noteq> []"
    and "g_arrival_times g = take 4 (map t_arrival_time (group_members k items))"
    and "g_realtime_data g = take 4 (map t_realtime_data (group_members k items))"
    and "g_full_stop g = t_closest_stop (hd (group_members k items))"
    using assms(1) unfolding grouped_def by blast+
qed

lemma group_members_sorted:
  assumes "sorted (map (\<lambda>item. dt_key (t_arrival_time (snd item))) items)"
  shows "sorted (map dt_key (map t_arrival_time (group_members k items)))"
proof -
  have "map dt_key (map t_arrival_time (group_members k items))
      = map (\<lambda>item. dt_key (t_arrival_time (snd item))) (filter (\<lambda>item. combo_of item = k) items)"
    by (simp add: group_members_def comp_def)
  then show ?thesis using sorted_filter[OF assms] by simp
qed

lemma sorted_departures_sorted:
  "sorted (map (\<lambda>item. dt_key (t_arrival_time (snd item))) (sorted_departures all))"
  unfolding sorted_departures_def by (rule sorted_sort_key)

text \<open>
  Claim C3. Every group of the dictionary returned by \<open>get_upcoming_departures\<close>
  holds at most 4 arrival times and as many realtime flags as arrival times. They are
  those of the first 4 trips of the group, in the order of processing: the later trips
  of the group leave no trace in the group.
\<close>

theorem get_upcoming_departures_cap:
  assumes "get_upcoming_departures api stop_list coords = Inr (departure_dict, updated_stop_list)"
  shows "\<exists>all. get_next_departures_for_stop_list api stop_list coords = Inr all
     \<and> (\<forall>(k, g) \<in> set departure_dict.
           length (g_arrival_times g) \<le> 4
         \<and> length (g_realtime_data g) = length (g_arrival_times g)
         \<and> g_arrival_times g
             = take 4 (map t_arrival_time (group_members k (sorted_departures all)))
         \<and> g_realtime_data g
             = take 4 (map t_realtime_data (group_members k (sorted_departures all))))"
proof -
  obtain all where a: "get_next_departures_for_stop_list api stop_list coords = Inr all"
    "grouped departure_dict (sorted_departures all)" "distinct (map fst departure_dict)"
    using get_upcoming_departures_grouped[OF assms] by blast
  have "length (g_arrival_times g) \<le> 4
         \<and> length (g_realtime_data g) = length (g_arrival_times g)
         \<and> g_arrival_times g
             = take 4 (map t_arrival_time (group_members k (sorted_departures all)))
         \<and> g_realtime_data g
             = take 4 (map t_realtime_data (group_members k (sorted_departures all)))"
    if "(k, g) \<in> set departure_dict" for k g
    using grouped_member(2,3)[OF a(2,3) that] by simp
  then show ?thesis using a(1) by blast
qed

lemma example_upcoming:
  "get_upcoming_departures example_api [near_stop, far_stop] (0, 0)
     = Inr ([(''42 - Downtown'', example_group)], [near_stop])"
  unfolding get_upcoming_departures_def example_near_far
  by (simp add: sorted_departures_def store_entry_def route_headsign_combo_def
      example_departure_def example_route_def gtfs_route_type_to_string_def
      route_type_to_string_mapping_def example_group_def near_stop_def Let_def)

lemma busy_corrected:
  "get_corrected_datetime ''2023-03-09'' ''10:50:00'' = Inr (example_time 10 50)"
  "get_corrected_datetime ''2023-03-09'' ''10:20:00'' = Inr (example_time 10 20)"
  "get_corrected_datetime ''2023-03-09'' ''10:40:00'' = Inr (example_time 10 40)"
  "get_corrected_datetime ''2023-03-09'' ''10:10:00'' = Inr (example_time 10 10)"
  "get_corrected_datetime ''2023-03-09'' ''10:30:00'' = Inr (example_time 10 30)"
  "get_corrected_datetime ''2023-03-09'' ''10:05:00'' = Inr (example_time 10 5)"
  unfolding example_time_def by code_simp+

lemma track_new_scheduled:
  assumes "map_of d tid = None"
    and "get_corrected_datetime ''2023-03-09'' time = Inr dt"
  shows "track_departure (0, 0) near_stop d (example_departure tid time)
     = Inr (AList.update tid (example_tracked (example_departure tid time) dt False) d)"
  using assms unfolding track_departure_def
  by (simp add: near_stop_def example_departure_def example_tracked_def haversine_same Let_def)

lemma track_new_estimated:
  assumes "map_of d tid = None" "est \<noteq> []"
    and "get_corrected_datetime ''2023-03-09'' est = Inr dt"
  shows "track_departure (0, 0) near_stop d (example_realtime_departure tid est time)
     = Inr (AList.update tid
         (example_tracked (example_realtime_departure tid est time) dt True) d)"
  using assms unfolding track_departure_def
  by (simp add: near_stop_def example_departure_def example_realtime_departure_def
      example_tracked_def haversine_same Let_def)

lemma busy_all:
  "get_next_departures_for_stop_list busy_api [near_stop] (0, 0) = Inr busy_trips"
  unfolding get_next_departures_for_stop_list_def
  by (simp add: busy_api_def busy_trips_def track_new_scheduled track_new_estimated
      busy_corrected)

lemma busy_key:
  "dt_key (t_arrival_time (example_tracked d (example_time h m) flag)) = (2023, 3, 9, h, m, 0, 0)"
  by (simp add: dt_key_def example_tracked_def example_time_def)

lemma busy_sorted_departures: "sorted_departures busy_trips = busy_sorted"
  by (simp add: sorted_departures_def busy_trips_def busy_sorted_def busy_key)

lemma busy_combo:
  "combo_of (tid, example_tracked (example_departure tid' time) dt flag) = ''42 - Downtown''"
  "combo_of (tid, example_tracked (example_realtime_departure tid' est time) dt flag)
     = ''42 - Downtown''"
  by (simp_all add: combo_of_def example_tracked_def example_departure_def
      example_realtime_departure_def route_headsign_combo_def example_route_def)

lemma busy_members: "group_members ''42 - Downtown'' busy_sorted = map snd busy_sorted"
  by (simp add: group_members_def busy_sorted_def busy_combo)

lemma busy_store: "store_entries [] busy_sorted = Inr [(''42 - Downtown'', busy_group)]"
  by (simp add: busy_sorted_def store_entry_def route_headsign_combo_def
      example_departure_def example_realtime_departure_def example_tracked_def
      example_route_def gtfs_route_type_to_string_def
      route_type_to_string_mapping_def busy_group_def near_stop_def Let_def)

lemma busy_upcoming:
  "get_upcoming_departures busy_api [near_stop] (0, 0)
     = Inr ([(''42 - Downtown'', busy_group)], [near_stop])"
  unfolding get_upcoming_departures_def busy_all
  by (simp add: busy_sorted_departures busy_store busy_group_def)

theorem get_upcoming_departures_cap_witness:
  "get_upcoming_departures busy_api [near_stop] (0, 0)
     = Inr ([(''42 - Downtown'', busy_group)], [near_stop])
   \<and> length (g_arrival_times busy_group) = 4
   \<and> (\<exists>all. get_next_departures_for_stop_list busy_api [near_stop] (0, 0) = Inr all
        \<and> length (group_members ''42 - Downtown'' (sorted_departures all)) = 6
        \<and> (\<forall>(k, g) \<in> set [(''42 - Downtown'', busy_group)].
           length (g_arrival_times g) \<le> 4
         \<and> length (g_realtime_data g) = length (g_arrival_times g)
         \<and> g_arrival_times g
             = take 4 (map t_arrival_time (group_members k (sorted_departures all)))
         \<and> g_realtime_data g
             = take 4 (map t_realtime_data (group_members k (sorted_departures all)))))"
proof -
  from get_upcoming_departures_cap [OF busy_upcoming]
  obtain all where a: "get_next_departures_for_stop_list busy_api [near_stop] (0, 0) = Inr all"
    "\<forall>(k, g) \<in> set [(''42 - Downtown'', busy_group)].
           length (g_arrival_times g) \<le> 4
         \<and> length (g_realtime_data g) = length (g_arrival_times g)
         \<and> g_arrival_times g
             = take 4 (map t_arrival_time (group_members k (sorted_departures all)))
         \<and> g_realtime_data g
             = take 4 (map t_realtime_data (group_members k (sorted_departures all)))"
    by blast
  have "all = busy_trips" using a(1) unfolding busy_all by simp
  then have "length (group_members ''42 - Downtown'' (sorted_departures all)) = 6"
    by (simp add: busy_sorted_departures busy_members) (simp add: busy_sorted_def)
  moreover have "length (g_arrival_times busy_group) = 4" by (simp add: busy_group_def)
  ultimately show ?thesis using busy_upcoming a by blast
qed

lemma group_members_sorted_set:
  "set (group_members k (sorted_departures all)) = set (group_members k all)"
  by (simp add: group_members_def sorted_departures_def)

text \<open>
  Claim C4. \<open>get_upcoming_departures\<close> processes the deduplicated trips, all of them
  and each once, in non-decreasing order of their arrival time. So the arrival times
  of every group of its result are in non-decreasing order, they are arrival times of
  trips of the group, and the first of them is not later than the arrival of any trip of
  the group.
\<close>

theorem get_upcoming_departures_sorted:
  assumes "get_upcoming_departures api stop_list coords = Inr (departure_dict, updated_stop_list)"
  shows "\<exists>all. get_next_departures_for_stop_list api stop_list coords = Inr all
     \<and> mset (sorted_departures all) = mset all
     \<and> sorted (map (\<lambda>item. dt_key (t_arrival_time (snd item))) (sorted_departures all))
     \<and> (\<forall>(k, g) \<in> set departure_dict.
           sorted (map dt_key (g_arrival_times g))
         \<and> g_arrival_times g \<noteq> []
         \<and> set (g_arrival_times g) \<subseteq> t_arrival_time ` set (group_members k all)
         \<and> (\<forall>t \<in> set (group_members k all).
               dt_key (hd (g_arrival_times g)) \<le> dt_key (t_arrival_time t)))"
proof -
  obtain all where a: "get_next_departures_for_stop_list api stop_list coords = Inr all"
    "grouped departure_dict (sorted_departures all)" "distinct (map fst departure_dict)"
    using get_upcoming_departures_grouped[OF assms] by blast
  have "sorted (map dt_key (g_arrival_times g))
         \<and> g_arrival_times g \<noteq> []
         \<and> set (g_arrival_times g) \<subseteq> t_arrival_time ` set (group_members k all)
         \<and> (\<forall>t \<in> set (group_members k all).
               dt_key (hd (g_arrival_times g)) \<le> dt_key (t_arrival_time t))"
    if kg: "(k, g) \<in> set departure_dict" for k g
  proof -
    define M where "M = group_members k (sorted_departures all)"
    have ne: "M \<noteq> []" and arr: "g_arrival_times g = take 4 (map t_arrival_time M)"
      unfolding M_def using grouped_member(1,2)[OF a(2,3) kg] by simp_all
    have sM: "set M = set (group_members k all)"
      unfolding M_def by (rule group_members_sorted_set)
    have s: "sorted (map dt_key (map t_arrival_time M))"
      unfolding M_def by (rule group_members_sorted[OF sorted_departures_sorted])
    have "map dt_key (g_arrival_times g) = take 4 (map dt_key (map t_arrival_time M))"
      unfolding arr by (simp add: take_map)
    then have 1: "sorted (map dt_key (g_arrival_times g))"
      using sorted_wrt_take[OF s, of 4] by simp
    have 2: "g_arrival_times g \<noteq> []" using ne arr by simp
    obtain m ms where M: "M = m # ms" using ne by (cases M) auto
    have h: "hd (g_arrival_times g) = t_arrival_time m" unfolding arr M by simp
    have 3: "dt_key (hd (g_arrival_times g)) \<le> dt_key (t_arrival_time t)" if "t \<in> set M" for t
      using s that unfolding h M by auto
    have "set (g_arrival_times g) \<subseteq> set (map t_arrival_time M)"
      unfolding arr by (rule set_take_subset)
    then have 4: "set (g_arrival_times g) \<subseteq> t_arrival_time ` set (group_members k all)"
      unfolding sM[symmetric] by simp
    show ?thesis using 1 2 3 4 unfolding sM[symmetric] by blast
  qed
  moreover have "mset (sorted_departures all) = mset all"
    by (simp add: sorted_departures_def)
  ultimately show ?thesis using a(1) sorted_departures_sorted by blast
qed

theorem get_upcoming_departures_sorted_witness:
  "get_upcoming_departures busy_api [near_stop] (0, 0)
     = Inr ([(''42 - Downtown'', busy_group)], [near_stop])
   \<and> g_arrival_times busy_group
       = [example_time 10 5, example_time 10 10, example_time 10 20, example_time 10 30]
   \<and> (\<exists>all. get_next_departures_for_stop_list busy_api [near_stop] (0, 0) = Inr all
     \<and> map fst all = [11, 12, 13, 14, 15, 16]
     \<and> map fst (sorted_departures all) = [16, 14, 12, 15, 13, 11]
     \<and> mset (sorted_departures all) = mset all
     \<and> sorted (map (\<lambda>item. dt_key (t_arrival_time (snd item))) (sorted_departures all))
     \<and> (\<forall>(k, g) \<in> set [(''42 - Downtown'', busy_group)].
           sorted (map dt_key (g_arrival_times g))
         \<and> g_arrival_times g \<noteq> []
         \<and> set (g_arrival_times g) \<subseteq> t_arrival_time ` set (group_members k all)
         \<and> (\<forall>t \<in> set (group_members k all).
               dt_key (hd (g_arrival_times g)) \<le> dt_key (t_arrival_time t))))"
proof -
  from get_upcoming_departures_sorted [OF busy_upcoming]
  obtain all where a: "get_next_departures_for_stop_list busy_api [near_stop] (0, 0) = Inr all"
    "mset (sorted_departures all) = mset all"
    "sorted (map (\<lambda>item. dt_key (t_arrival_time (snd item))) (sorted_departures all))"
    "\<forall>(k, g) \<in> set [(''42 - Downtown'', busy_group)].
           sorted (map dt_key (g_arrival_times g))
         \<and> g_arrival_times g \<noteq> []
         \<and> set (g_arrival_times g) \<subseteq> t_arrival_time ` set (group_members k all)
         \<and> (\<forall>t \<in> set (group_members k all).
               dt_key (hd (g_arrival_times g)) \<le> dt_key (t_arrival_time t))"
    by blast
  have e: "all = busy_trips" using a(1) unfolding busy_all by simp
  have 1: "map fst all = [11, 12, 13, 14, 15, 16]" unfolding e by (simp add: busy_trips_def)
  have 2: "map fst (sorted_departures all) = [16, 14, 12, 15, 13, 11]"
    unfolding e busy_sorted_departures by (simp add: busy_sorted_def)
  have 3: "g_arrival_times busy_group
       = [example_time 10 5, example_time 10 10, example_time 10 20, example_time 10 30]"
    by (simp add: busy_group_def)
  have "\<exists>all. get_next_departures_for_stop_list busy_api [near_stop] (0, 0) = Inr all
     \<and> map fst all = [11, 12, 13, 14, 15, 16]
     \<and> map fst (sorted_departures all) = [16, 14, 12, 15, 13, 11]
     \<and> mset (sorted_departures all) = mset all
     \<and> sorted (map (\<lambda>item. dt_key (t_arrival_time (snd item))) (sorted_departures all))
     \<and> (\<forall>(k, g) \<in> set [(''42 - Downtown'', busy_group)].
           sorted (map dt_key (g_arrival_times g))
         \<and> g_arrival_times g \<noteq> []
         \<and> set (g_arrival_times g) \<subseteq> t_arrival_time ` set (group_members k all)
         \<and> (\<forall>t \<in> set (group_members k all).
               dt_key (hd (g_arrival_times g)) \<le> dt_key (t_arrival_time t)))"
    using a 1 2 by (intro exI[of _ all] conjI)
  then show ?thesis using busy_upcoming 3 by (intro conjI)
qed

section \<open>The display and the worker\<close>

lemma label_text3_ok:
  assumes "well_formed_group g"
  shows "\<exists>l. label_text3 now g = Inr l"
proof -
  have "flags_cover (Some (g_realtime_data g)) (0 + length (g_arrival_times g))"
    using assms by (simp add: flags_cover_def well_formed_group_def)
  from time_strings_from_ok[OF this, of now]
  obtain ss where ss: "time_difference_strings now (g_arrival_times g) (Some (g_realtime_data g))
      = Inr ss" "length ss = length (g_arrival_times g)"
    unfolding time_difference_strings_def by blast
  then have "ss \<noteq> []" using assms by (auto simp: well_formed_group_def)
  then obtain t rest where "ss = t # rest" by (cases ss) auto
  then show ?thesis using ss(1) by (simp add: label_text3_def)
qed

lemma render_rows_ok:
  "\<forall>kv \<in> set items. well_formed_group (snd kv) \<Longrightarrow>
     \<exists>ls. render_rows now items = Inr ls \<and> length ls = length items"
proof (induction items)
  case Nil
  then show ?case by simp
next
  case (Cons kv kvs)
  then obtain ls where ls: "render_rows now kvs = Inr ls" "length ls = length kvs" by auto
  obtain l where l: "label_text3 now (snd kv) = Inr l"
    using label_text3_ok[of "snd kv" now] Cons.prems by auto
  show ?case using l ls by simp
qed

lemma render_pages_ok:
  assumes "\<forall>kv \<in> set items. well_formed_group (snd kv)"
  shows "\<exists>ps. render_pages now items pages = Inr ps \<and> length ps = length pages"
proof (induction pages)
  case Nil
  then show ?case by simp
next
  case (Cons page pages)
  then obtain ps where ps: "render_pages now items pages = Inr ps" "length ps = length pages"
    by auto
  have "\<forall>kv \<in> set (drop (page * 4) (take (min ((page + 1) * 4) (length items)) items)).
          well_formed_group (snd kv)"
    using assms by (meson in_set_dropD in_set_takeD)
  from render_rows_ok[OF this, of now]
  obtain p where "render_rows now (drop (page * 4) (take (min ((page + 1) * 4) (length items)) items))
      = Inr p" by blast
  then show ?case using ps by (simp add: Let_def)
qed

lemma render_pages_length:
  "render_pages now items pages = Inr ps \<Longrightarrow> length ps = length pages"
  by (induction pages arbitrary: ps) (auto simp: Let_def bind_Inr_iff)

lemma update_table_ok:
  assumes "\<forall>kv \<in> set data. well_formed_group (snd kv)"
  shows "\<exists>s'. update_table now data s = Inr s' \<and> current_page s' = 0
     \<and> length (stacked_widget s') = (length data + 3) div 4 \<and> departure_info s' = data"
proof -
  obtain ps where "render_pages now data [0..<(length data + 4 - 1) div 4] = Inr ps"
    "length ps = length [0..<(length data + 4 - 1) div 4]"
    using render_pages_ok[OF assms] by blast
  then show ?thesis by (simp add: update_table_def Let_def)
qed

lemma update_table_resets:
  "update_table now data s = Inr s' \<Longrightarrow> current_page s' = 0
     \<and> length (stacked_widget s') = (length data + 3) div 4"
  by (auto simp: update_table_def Let_def bind_Inr_iff dest: render_pages_length)

lemma upcoming_well_formed:
  assumes "get_upcoming_departures api stops coords = Inr (data, upd)"
  shows "\<forall>kv \<in> set data. well_formed_group (snd kv)"
proof
  fix kv assume kv: "kv \<in> set data"
  obtain all where a: "grouped data (sorted_departures all)" "distinct (map fst data)"
    using get_upcoming_departures_grouped[OF assms] by blast
  have m: "(fst kv, snd kv) \<in> set data" using kv by simp
  show "well_formed_group (snd kv)"
    using grouped_member(1-3)[OF a m] by (simp add: well_formed_group_def)
qed

lemma switch_page_turn:
  assumes "1 < length (stacked_widget s)"
  shows "current_page (switch_page s) = (current_page s + 1) mod int (length (stacked_widget s))"
    and "0 \<le> current_page (switch_page s)"
    and "current_page (switch_page s) < int (length (stacked_widget s))"
    and "current_page s = int (length (stacked_widget s)) - 1 \<Longrightarrow>
          current_page (switch_page s) = 0"
proof -
  have p: "0 < int (length (stacked_widget s))" using assms by linarith
  show c: "current_page (switch_page s)
      = (current_page s + 1) mod int (length (stacked_widget s))"
    using assms by (simp add: switch_page_def Let_def)
  show "0 \<le> current_page (switch_page s)"
    unfolding c using p by (rule pos_mod_sign)
  show "current_page (switch_page s) < int (length (stacked_widget s))"
    unfolding c using p by (rule pos_mod_bound)
  show "current_page s = int (length (stacked_widget s)) - 1 \<Longrightarrow>
          current_page (switch_page s) = 0"
    unfolding c by simp
qed

text \<open>
  Claim C5. With more than one page, a tick of the page-turn timer moves
  \<open>current_page\<close> to \<open>(current_page + 1) mod total_pages\<close>: the new index is in
  \<open>[0, total_pages)\<close>, and after the last page comes the first. With at most one
  page a tick changes nothing. A data refresh, \<open>update_table\<close> on the data of
  \<open>get_upcoming_departures\<close>, succeeds and leaves \<open>current_page\<close> at 0.
\<close>

theorem paged_display_rotates:
  "(1 < length (stacked_widget s) \<longrightarrow>
       current_page (switch_page s) = (current_page s + 1) mod int (length (stacked_widget s))
     \<and> 0 \<le> current_page (switch_page s)
     \<and> current_page (switch_page s) < int (length (stacked_widget s))
     \<and> (current_page s = int (length (stacked_widget s)) - 1 \<longrightarrow>
          current_page (switch_page s) = 0))
   \<and> (length (stacked_widget s) \<le> 1 \<longrightarrow> switch_page s = s)
   \<and> length (stacked_widget (switch_page s)) = length (stacked_widget s)
   \<and> (update_table now data s = Inr s' \<longrightarrow> current_page s' = 0)
   \<and> (get_upcoming_departures api stops coords = Inr (data, upd) \<longrightarrow>
        (\<exists>s''. update_table now data s = Inr s'' \<and> current_page s'' = 0))"
proof (intro conjI impI)
  assume "get_upcoming_departures api stops coords = Inr (data, upd)"
  from update_table_ok[OF upcoming_well_formed[OF this], of now s]
  show "\<exists>s''. update_table now data s = Inr s'' \<and> current_page s'' = 0" by blast
next
  assume "update_table now data s = Inr s'"
  then show "current_page s' = 0" using update_table_resets by blast
next
  assume m: "1 < length (stacked_widget s)"
  show "current_page (switch_page s) = (current_page s + 1) mod int (length (stacked_widget s))"
    and "0 \<le> current_page (switch_page s)"
    and "current_page (switch_page s) < int (length (stacked_widget s))"
    using switch_page_turn(1-3)[OF m] by simp_all
  assume "current_page s = int (length (stacked_widget s)) - 1"
  then show "current_page (switch_page s) = 0" by (rule switch_page_turn(4)[OF m])
qed (simp_all add: switch_page_def Let_def)

theorem paged_display_rotates_witness:
  "current_page (switch_page (app_init\<lparr>stacked_widget := [[], [], []], current_page := 2\<rparr>)) = 0
   \<and> switch_page app_init = app_init
   \<and> (\<exists>s'. update_table example_now [(''42 - Downtown'', example_group)] app_init = Inr s'
          \<and> current_page s' = 0)"
proof -
  have 1: "current_page (switch_page (app_init\<lparr>stacked_widget := [[], [], []],
      current_page := 2\<rparr>)) = 0"
    using paged_display_rotates
      [where s = "app_init\<lparr>stacked_widget := [[], [], []], current_page := 2\<rparr>"]
    by simp
  have 2: "switch_page app_init = app_init"
    using paged_display_rotates [where s = app_init] by (simp add: app_init_def)
  have 3: "\<exists>s'. update_table example_now [(''42 - Downtown'', example_group)] app_init = Inr s'
          \<and> current_page s' = 0"
    using paged_display_rotates
      [where s = app_init and api = example_api and stops = "[near_stop, far_stop]"
         and coords = "(0, 0)" and data = "[(''42 - Downtown'', example_group)]"
         and upd = "[near_stop]" and now = example_now]
      example_upcoming
    by blast
  show ?thesis using 1 2 3 by blast
qed

lemma monitored_stops_ids:
  "set (map stop_id (monitored_stops acc dd))
      = set (map stop_id acc) \<union> set (map (\<lambda>kv. stop_id (g_full_stop (snd kv))) dd)
   \<and> (distinct (map stop_id acc) \<longrightarrow> distinct (map stop_id (monitored_stops acc dd)))
   \<and> set (monitored_stops acc dd) \<subseteq> set acc \<union> (\<lambda>kv. g_full_stop (snd kv)) ` set dd"
proof (induction dd arbitrary: acc)
  case Nil
  then show ?case by simp
next
  case (Cons kv kvs)
  show ?case
  proof (cases "list_ex (\<lambda>e. stop_id e = stop_id (g_full_stop (snd kv))) acc")
    case True
    then obtain e where "e \<in> set acc" "stop_id e = stop_id (g_full_stop (snd kv))"
      by (auto simp: list_ex_iff)
    then have "stop_id (g_full_stop (snd kv)) \<in> set (map stop_id acc)"
      by (metis imageI set_map)
    then show ?thesis using True Cons.IH[of acc] by auto
  next
    case False
    then have "\<forall>e \<in> set acc. stop_id e \<noteq> stop_id (g_full_stop (snd kv))"
      by (simp add: list_ex_iff)
    then have "stop_id (g_full_stop (snd kv)) \<notin> set (map stop_id acc)"
      by auto
    then show ?thesis using False Cons.IH[of "acc @ [g_full_stop (snd kv)]"] by auto
  qed
qed

lemma run_iteration_shape:
  assumes "run_iteration p w = Inr (w', display_data)"
  shows "\<exists>updated. get_upcoming_departures (poll_departures p) (monitored_stop_list w)
               (address_coords w) = Inr (display_data, updated)
     \<and> address_coords w' = address_coords w
     \<and> (if update_intervals_to_use_cached_stop_data w \<noteq> 0
         then monitored_stop_list w' = updated
            \<and> update_intervals_to_use_cached_stop_data w'
                 = update_intervals_to_use_cached_stop_data w - 1
         else poll_nearby_stops p = Inr (monitored_stop_list w')
            \<and> update_intervals_to_use_cached_stop_data w'
                 = UPDATE_INTERVALS_TO_USE_CACHED_STOP_DATA)"
proof -
  obtain updated where u: "get_upcoming_departures (poll_departures p) (monitored_stop_list w)
               (address_coords w) = Inr (display_data, updated)"
    using assms by (auto simp: run_iteration_def bind_Inr_iff split: if_splits)
  show ?thesis
  proof (cases "update_intervals_to_use_cached_stop_data w = 0")
    case True
    then show ?thesis using assms u
      by (auto simp: run_iteration_def bind_Inr_iff)
  next
    case False
    then show ?thesis using assms u
      by (auto simp: run_iteration_def)
  qed
qed

lemma run_loop_counter:
  "run_loop polls n (worker_init stops coords) = Inr wn \<Longrightarrow>
     update_intervals_to_use_cached_stop_data wn = 30 - int (n mod 31)
   \<and> (0 < n \<and> n mod 31 = 0 \<longrightarrow>
        poll_nearby_stops (polls (n - 1)) = Inr (monitored_stop_list wn))"
proof (induction n arbitrary: wn)
  case 0
  then show ?case
    by (auto simp: worker_init_def UPDATE_INTERVALS_TO_USE_CACHED_STOP_DATA_def)
next
  case (Suc n)
  then obtain w d where w: "run_loop polls n (worker_init stops coords) = Inr w"
    "run_iteration (polls n) w = Inr (wn, d)"
    by (auto simp: bind_Inr_iff)
  have c: "update_intervals_to_use_cached_stop_data w = 30 - int (n mod 31)"
    using Suc.IH[OF w(1)] by simp
  have b: "n mod 31 < 31" by simp
  show ?case
  proof (cases "n mod 31 = 30")
    case True
    then have z: "update_intervals_to_use_cached_stop_data w = 0" using c by simp
    have m: "Suc n mod 31 = 0" using True by (simp add: mod_Suc)
    show ?thesis
      using run_iteration_shape[OF w(2)] z m
      by (simp add: UPDATE_INTERVALS_TO_USE_CACHED_STOP_DATA_def)
  next
    case False
    then have z: "update_intervals_to_use_cached_stop_data w \<noteq> 0" using c b by linarith
    have m: "Suc n mod 31 = Suc (n mod 31)" using False by (simp add: mod_Suc)
    show ?thesis
      using run_iteration_shape[OF w(2)] z c unfolding m by simp
  qed
qed

text \<open>
  Claim C6. An iteration of the worker loop carries over the monitored stop list and
  the counter, and leaves the address alone. While the counter is not zero, the list
  becomes the stops of the groups just computed for the display, each stop id once, and
  the counter goes down by one; at zero the list becomes the answer of
  \<open>get_nearby_stops\<close> and the counter is reset to 30. So, as long as the loop runs,
  after \<open>n\<close> iterations the counter is \<open>30 - n mod 31\<close>, and every 31st iteration
  is a refresh from the nearby stops.
\<close>

theorem worker_loop_feedback:
  "(run_iteration p w = Inr (w', display_data) \<longrightarrow>
      address_coords w' = address_coords w
    \<and> (\<exists>updated.
          get_upcoming_departures (poll_departures p) (monitored_stop_list w)
            (address_coords w) = Inr (display_data, updated)
        \<and> set (map stop_id updated)
            = set (map (\<lambda>kv. stop_id (g_full_stop (snd kv))) display_data)
        \<and> distinct (map stop_id updated)
        \<and> set updated \<subseteq> (\<lambda>kv. g_full_stop (snd kv)) ` set display_data
        \<and> (if update_intervals_to_use_cached_stop_data w \<noteq> 0
            then monitored_stop_list w' = updated
               \<and> update_intervals_to_use_cached_stop_data w'
                    = update_intervals_to_use_cached_stop_data w - 1
            else poll_nearby_stops p = Inr (monitored_stop_list w')
               \<and> update_intervals_to_use_cached_stop_data w' = 30)))
   \<and> (run_loop polls n (worker_init stops coords) = Inr wn \<longrightarrow>
        update_intervals_to_use_cached_stop_data wn = 30 - int (n mod 31)
      \<and> (0 < n \<and> n mod 31 = 0 \<longrightarrow>
           poll_nearby_stops (polls (n - 1)) = Inr (monitored_stop_list wn)))"
proof (intro conjI impI)
  assume r: "run_iteration p w = Inr (w', display_data)"
  obtain updated where u:
    "get_upcoming_departures (poll_departures p) (monitored_stop_list w)
               (address_coords w) = Inr (display_data, updated)"
    "address_coords w' = address_coords w"
    "if update_intervals_to_use_cached_stop_data w \<noteq> 0
         then monitored_stop_list w' = updated
            \<and> update_intervals_to_use_cached_stop_data w'
                 = update_intervals_to_use_cached_stop_data w - 1
         else poll_nearby_stops p = Inr (monitored_stop_list w')
            \<and> update_intervals_to_use_cached_stop_data w'
                 = UPDATE_INTERVALS_TO_USE_CACHED_STOP_DATA"
    using run_iteration_shape[OF r] by blast
  show "address_coords w' = address_coords w" by (rule u(2))
  have upd: "updated = monitored_stops [] display_data"
    using get_upcoming_departures_grouped[OF u(1)] by blast
  have ids: "set (map stop_id updated)
            = set (map (\<lambda>kv. stop_id (g_full_stop (snd kv))) display_data)"
    "distinct (map stop_id updated)"
    "set updated \<subseteq> (\<lambda>kv. g_full_stop (snd kv)) ` set display_data"
    unfolding upd using monitored_stops_ids[of "[]" display_data] by simp_all
  show "\<exists>updated.
          get_upcoming_departures (poll_departures p) (monitored_stop_list w)
            (address_coords w) = Inr (display_data, updated)
        \<and> set (map stop_id updated)
            = set (map (\<lambda>kv. stop_id (g_full_stop (snd kv))) display_data)
        \<and> distinct (map stop_id updated)
        \<and> set updated \<subseteq> (\<lambda>kv. g_full_stop (snd kv)) ` set display_data
        \<and> (if update_intervals_to_use_cached_stop_data w \<noteq> 0
            then monitored_stop_list w' = updated
               \<and> update_intervals_to_use_cached_stop_data w'
                    = update_intervals_to_use_cached_stop_data w - 1
            else poll_nearby_stops p = Inr (monitored_stop_list w')
               \<and> update_intervals_to_use_cached_stop_data w' = 30)"
    using u(1,3) ids
    by (intro exI[of _ updated])
       (simp add: UPDATE_INTERVALS_TO_USE_CACHED_STOP_DATA_def split: if_splits)
next
  assume "run_loop polls n (worker_init stops coords) = Inr wn"
  from run_loop_counter[OF this]
  show "update_intervals_to_use_cached_stop_data wn = 30 - int (n mod 31)"
    and "0 < n \<and> n mod 31 = 0 \<Longrightarrow>
           poll_nearby_stops (polls (n - 1)) = Inr (monitored_stop_list wn)"
    by simp_all
qed

lemma example_near:
  "get_next_departures_for_stop_list example_api [near_stop] (0, 0)
     = Inr [(7, \<lparr>t_departure = example_departure 7 ''24:05:00'', t_closest_stop = near_stop,
                 t_distance = 0,
                 t_arrival_time = \<lparr>year = 2023, month = 3, day = 10, hour = 0, minute = 5,
                   second = 0, microsecond = 0\<rparr>,
                 t_realtime_data = False\<rparr>)]"
proof -
  have 1: "track_departure (0, 0) near_stop [] (example_departure 7 ''24:05:00'')
      = Inr [(7, \<lparr>t_departure = example_departure 7 ''24:05:00'', t_closest_stop = near_stop,
                 t_distance = 0,
                 t_arrival_time = \<lparr>year = 2023, month = 3, day = 10, hour = 0, minute = 5,
                   second = 0, microsecond = 0\<rparr>,
                 t_realtime_data = False\<rparr>)]"
    unfolding track_departure_def
    by (simp add: near_stop_def example_departure_def haversine_same example_corrected Let_def)
  show ?thesis
    unfolding get_next_departures_for_stop_list_def
    by (simp add: example_api_def 1)
qed

lemma example_upcoming_near:
  "get_upcoming_departures example_api [near_stop] (0, 0)
     = Inr ([(''42 - Downtown'', example_group)], [near_stop])"
  unfolding get_upcoming_departures_def example_near
  by (simp add: sorted_departures_def store_entry_def route_headsign_combo_def
      example_departure_def example_route_def gtfs_route_type_to_string_def
      route_type_to_string_mapping_def example_group_def near_stop_def Let_def)

lemma example_iteration:
  assumes "stops = [near_stop, far_stop] \<or> stops = [near_stop]"
  shows "run_iteration example_poll
           \<lparr>monitored_stop_list = stops, address_coords = (0, 0),
            update_intervals_to_use_cached_stop_data = c\<rparr>
     = Inr (\<lparr>monitored_stop_list = (if c \<noteq> 0 then [near_stop] else [near_stop, far_stop]),
             address_coords = (0, 0),
             update_intervals_to_use_cached_stop_data = (if c \<noteq> 0 then c - 1 else 30)\<rparr>,
            [(''42 - Downtown'', example_group)])"
  using assms example_upcoming example_upcoming_near
  by (auto simp: run_iteration_def example_poll_def
      UPDATE_INTERVALS_TO_USE_CACHED_STOP_DATA_def)

lemma example_iteration_both:
  "run_iteration example_poll
           \<lparr>monitored_stop_list = [near_stop, far_stop], address_coords = (0, 0),
            update_intervals_to_use_cached_stop_data = c\<rparr>
     = Inr (\<lparr>monitored_stop_list = (if c \<noteq> 0 then [near_stop] else [near_stop, far_stop]),
             address_coords = (0, 0),
             update_intervals_to_use_cached_stop_data = (if c \<noteq> 0 then c - 1 else 30)\<rparr>,
            [(''42 - Downtown'', example_group)])"
  "run_iteration example_poll
           \<lparr>monitored_stop_list = [near_stop], address_coords = (0, 0),
            update_intervals_to_use_cached_stop_data = c\<rparr>
     = Inr (\<lparr>monitored_stop_list = (if c \<noteq> 0 then [near_stop] else [near_stop, far_stop]),
             address_coords = (0, 0),
             update_intervals_to_use_cached_stop_data = (if c \<noteq> 0 then c - 1 else 30)\<rparr>,
            [(''42 - Downtown'', example_group)])"
  by (rule example_iteration, simp)+

lemma example_loop:
  "run_loop (\<lambda>i. example_poll) n (worker_init [near_stop, far_stop] (0, 0))
     = Inr \<lparr>monitored_stop_list = (if n mod 31 = 0 then [near_stop, far_stop] else [near_stop]),
            address_coords = (0, 0),
            update_intervals_to_use_cached_stop_data = 30 - int (n mod 31)\<rparr>"
proof (induction n)
  case 0
  then show ?case
    by (simp add: worker_init_def UPDATE_INTERVALS_TO_USE_CACHED_STOP_DATA_def)
next
  case (Suc n)
  have b: "n mod 31 < 31" by simp
  show ?case
  proof (cases "n mod 31 = 30")
    case True
    then have m: "Suc n mod 31 = 0" by (simp add: mod_Suc)
    show ?thesis
      using True by (simp add: Suc.IH example_iteration_both m)
  next
    case False
    then have m: "Suc n mod 31 = Suc (n mod 31)" by (simp add: mod_Suc)
    have nz: "30 - int (n mod 31) \<noteq> 0" using False b by linarith
    show ?thesis
      using nz by (simp add: Suc.IH example_iteration_both m)
  qed
qed

theorem worker_loop_feedback_witness:
  "run_iteration example_poll (worker_init [near_stop, far_stop] (0, 0))
     = Inr (\<lparr>monitored_stop_list = [near_stop], address_coords = (0, 0),
             update_intervals_to_use_cached_stop_data = 29\<rparr>,
            [(''42 - Downtown'', example_group)])
   \<and> (\<exists>wn. run_loop (\<lambda>i. example_poll) 31 (worker_init [near_stop, far_stop] (0, 0)) = Inr wn
        \<and> update_intervals_to_use_cached_stop_data wn = 30
        \<and> poll_nearby_stops example_poll = Inr (monitored_stop_list wn))
   \<and> (\<exists>updated. get_upcoming_departures example_api [near_stop, far_stop] (0, 0)
          = Inr ([(''42 - Downtown'', example_group)], updated)
        \<and> distinct (map stop_id updated) \<and> updated = [near_stop])"
proof -
  have i: "run_iteration example_poll (worker_init [near_stop, far_stop] (0, 0))
     = Inr (\<lparr>monitored_stop_list = [near_stop], address_coords = (0, 0),
             update_intervals_to_use_cached_stop_data = 29\<rparr>,
            [(''42 - Downtown'', example_group)])"
    using example_iteration[of "[near_stop, far_stop]" 30]
    by (simp add: worker_init_def UPDATE_INTERVALS_TO_USE_CACHED_STOP_DATA_def)
  obtain wn where l: "run_loop (\<lambda>i. example_poll) 31 (worker_init [near_stop, far_stop] (0, 0))
      = Inr wn"
    using example_loop[of 31] by simp
  note t = worker_loop_feedback
      [where polls = "\<lambda>i. example_poll" and n = 31 and stops = "[near_stop, far_stop]"
         and coords = "(0, 0)" and wn = wn and p = example_poll
         and w = "worker_init [near_stop, far_stop] (0, 0)"
         and w' = "\<lparr>monitored_stop_list = [near_stop], address_coords = (0, 0),
             update_intervals_to_use_cached_stop_data = 29\<rparr>"
         and display_data = "[(''42 - Downtown'', example_group)]"]
  have "update_intervals_to_use_cached_stop_data wn = 30 - int (31 mod 31)
      \<and> (0 < (31::nat) \<and> (31::nat) mod 31 = 0 \<longrightarrow>
           poll_nearby_stops example_poll = Inr (monitored_stop_list wn))"
    using t[THEN conjunct2, THEN mp, OF l] by simp
  then have c: "update_intervals_to_use_cached_stop_data wn = 30"
    "poll_nearby_stops example_poll = Inr (monitored_stop_list wn)" by simp_all
  from t[THEN conjunct1, THEN mp, OF i]
  obtain updated where u:
    "get_upcoming_departures (poll_departures example_poll)
       (monitored_stop_list (worker_init [near_stop, far_stop] (0, 0)))
       (address_coords (worker_init [near_stop, far_stop] (0, 0)))
       = Inr ([(''42 - Downtown'', example_group)], updated)"
    "distinct (map stop_id updated)"
    by blast
  have u1: "get_upcoming_departures example_api [near_stop, far_stop] (0, 0)
       = Inr ([(''42 - Downtown'', example_group)], updated)"
    using u(1) by (simp add: worker_init_def example_poll_def)
  then have u2: "updated = [near_stop]" using example_upcoming by simp
  show ?thesis using i l c u1 u(2) u2 by blast
qed

section \<open>The closest stop of a trip\<close>

lemma closest_key: "closest c d R \<Longrightarrow> (s, x) \<in> set R \<Longrightarrow> map_of d (trip_id (dep_trip x)) \<noteq> None"
  unfolding closest_def by blast

lemma closest_entry:
  assumes "closest c d R" "map_of d tid = Some tv"
  shows "trip_id (dep_trip (t_departure tv)) = tid"
    and "stop_distance c (t_closest_stop tv) = Inr (t_distance tv)"
    and "(t_closest_stop tv, t_departure tv) \<in> set R"
  using assms unfolding closest_def by blast+

lemma closest_le:
  assumes "closest c d R" "map_of d tid = Some tv" "(s, x) \<in> set R" "trip_id (dep_trip x) = tid"
  shows "\<exists>dx. stop_distance c s = Inr dx \<and> t_distance tv \<le> dx"
  using assms unfolding closest_def by blast

lemma closest_update:
  assumes i: "closest c d R"
    and h: "stop_distance c s = Inr dx"
    and v: "t_distance v = dx" "t_closest_stop v = s" "t_departure v = x"
    and le: "\<And>cached. map_of d (trip_id (dep_trip x)) = Some cached \<Longrightarrow> dx \<le> t_distance cached"
  shows "closest c (AList.update (trip_id (dep_trip x)) v d) (R @ [(s, x)])"
proof -
  define tid0 where "tid0 = trip_id (dep_trip x)"
  define d' where "d' = AList.update tid0 v d"
  have m: "map_of d' tid = (if tid = tid0 then Some v else map_of d tid)" for tid
    unfolding d'_def by (simp add: AList.update_conv')
  have k: "map_of d' (trip_id (dep_trip x')) \<noteq> None" if "(s', x') \<in> set (R @ [(s, x)])" for s' x'
  proof (cases "(s', x') \<in> set R")
    case True
    then show ?thesis using closest_key[OF i True] by (simp add: m)
  next
    case False
    then have "x' = x" using that by simp
    then show ?thesis by (simp add: m tid0_def)
  qed
  have e: "trip_id (dep_trip (t_departure tv)) = tid
          \<and> stop_distance c (t_closest_stop tv) = Inr (t_distance tv)
          \<and> (t_closest_stop tv, t_departure tv) \<in> set (R @ [(s, x)])"
    if "map_of d' tid = Some tv" for tid tv
  proof (cases "tid = tid0")
    case True
    then have "tv = v" using that by (simp add: m)
    then show ?thesis using v h True by (simp add: tid0_def)
  next
    case False
    then have "map_of d tid = Some tv" using that by (simp add: m)
    then show ?thesis using closest_entry[OF i] by simp
  qed
  have l: "\<exists>dx. stop_distance c s' = Inr dx \<and> t_distance tv \<le> dx"
    if mt: "map_of d' tid = Some tv" and r: "(s', x') \<in> set (R @ [(s, x)])"
      and t: "trip_id (dep_trip x') = tid" for tid tv s' x'
  proof (cases "(s', x') \<in> set R")
    case inR: True
    show ?thesis
    proof (cases "tid = tid0")
      case True
      then have tv: "tv = v" using mt by (simp add: m)
      obtain cached where c: "map_of d tid0 = Some cached"
        using closest_key[OF i inR] t True by auto
      obtain dx' where "stop_distance c s' = Inr dx'" "t_distance cached \<le> dx'"
        using closest_le[OF i c inR] t True by auto
      moreover have "dx \<le> t_distance cached" using le c by (simp add: tid0_def)
      ultimately show ?thesis using tv v(1) by auto
    next
      case False
      then have "map_of d tid = Some tv" using mt by (simp add: m)
      then show ?thesis using closest_le[OF i _ inR t] by simp
    qed
  next
    case False
    then have sx: "s' = s" "x' = x" using r by simp_all
    then have "tid = tid0" using t by (simp add: tid0_def)
    then have "tv = v" using mt by (simp add: m)
    then show ?thesis using h v(1) sx by simp
  qed
  have "closest c d' (R @ [(s, x)])"
    unfolding closest_def using k e l by blast
  then show ?thesis unfolding d'_def tid0_def .
qed

lemma closest_keep:
  assumes i: "closest c d R"
    and h: "stop_distance c s = Inr dx"
    and c: "map_of d (trip_id (dep_trip x)) = Some cached"
    and le: "t_distance cached \<le> dx"
  shows "closest c d (R @ [(s, x)])"
proof -
  have k: "map_of d (trip_id (dep_trip x')) \<noteq> None" if "(s', x') \<in> set (R @ [(s, x)])" for s' x'
  proof (cases "(s', x') \<in> set R")
    case True
    then show ?thesis using closest_key[OF i True] by simp
  next
    case False
    then have "x' = x" using that by simp
    then show ?thesis using c by simp
  qed
  have e: "trip_id (dep_trip (t_departure tv)) = tid
          \<and> stop_distance c (t_closest_stop tv) = Inr (t_distance tv)
          \<and> (t_closest_stop tv, t_departure tv) \<in> set (R @ [(s, x)])"
    if "map_of d tid = Some tv" for tid tv
    using closest_entry[OF i that] by simp
  have l: "\<exists>dx. stop_distance c s' = Inr dx \<and> t_distance tv \<le> dx"
    if mt: "map_of d tid = Some tv" and r: "(s', x') \<in> set (R @ [(s, x)])"
      and t: "trip_id (dep_trip x') = tid" for tid tv s' x'
  proof (cases "(s', x') \<in> set R")
    case True
    then show ?thesis using closest_le[OF i mt True t] by simp
  next
    case False
    then have sx: "s' = s" "x' = x" using r by simp_all
    then have "tv = cached" using mt t c by simp
    then show ?thesis using h le sx by simp
  qed
  show ?thesis unfolding closest_def using k e l by blast
qed

lemma track_departure_closest:
  assumes t: "track_departure c s d x = Inr d'" and i: "closest c d R"
  shows "closest c d' (R @ [(s, x)])"
proof -
  obtain dx where h: "stop_distance c s = Inr dx"
    and sh: "case map_of d (trip_id (dep_trip x)) of
          None \<Rightarrow> \<exists>v. d' = AList.update (trip_id (dep_trip x)) v d
                    \<and> t_distance v = dx \<and> t_closest_stop v = s \<and> t_departure v = x
        | Some cached \<Rightarrow>
            if dx < t_distance cached
            then \<exists>v. d' = AList.update (trip_id (dep_trip x)) v d
                    \<and> t_distance v = dx \<and> t_closest_stop v = s \<and> t_departure v = x
            else d' = d"
    using track_departure_shape[OF t] unfolding stop_distance_def by fast
  show ?thesis
  proof (cases "map_of d (trip_id (dep_trip x))")
    case None
    then obtain v where v: "d' = AList.update (trip_id (dep_trip x)) v d" "t_distance v = dx"
      "t_closest_stop v = s" "t_departure v = x"
      using sh by auto
    show ?thesis unfolding v(1)
      by (rule closest_update[OF i h v(2-4)]) (simp add: None)
  next
    case (Some cached)
    show ?thesis
    proof (cases "dx < t_distance cached")
      case True
      then obtain v where v: "d' = AList.update (trip_id (dep_trip x)) v d" "t_distance v = dx"
        "t_closest_stop v = s" "t_departure v = x"
        using sh Some by auto
      show ?thesis unfolding v(1)
        by (rule closest_update[OF i h v(2-4)]) (use True Some in simp)
    next
      case False
      then have d': "d' = d" using sh Some by simp
      show ?thesis unfolding d'
        by (rule closest_keep[OF i h Some]) (use False in simp)
    qed
  qed
qed

lemma track_departures_closest:
  "track_departures c s d xs = Inr d' \<Longrightarrow> closest c d R \<Longrightarrow>
     closest c d' (R @ map (Pair s) xs)"
proof (induction xs arbitrary: d R)
  case Nil
  then show ?case by simp
next
  case (Cons x xs)
  then obtain d1 where d1: "track_departure c s d x = Inr d1"
    "track_departures c s d1 xs = Inr d'"
    by (auto simp: bind_Inr_iff)
  have "closest c d' ((R @ [(s, x)]) @ map (Pair s) xs)"
    by (rule Cons.IH[OF d1(2) track_departure_closest[OF d1(1) Cons.prems(2)]])
  then show ?case by simp
qed

lemma track_stops_closest:
  "track_stops api c d stops = Inr d' \<Longrightarrow> closest c d R \<Longrightarrow>
     closest c d' (R @ reports api stops)"
proof (induction stops arbitrary: d R)
  case Nil
  then show ?case by (simp add: reports_def)
next
  case (Cons s stops)
  then obtain ds d1 where s: "api (stop_id s) = Inr ds"
    "track_departures c s d ds = Inr d1" "track_stops api c d1 stops = Inr d'"
    by (auto simp: bind_Inr_iff)
  have r: "reports api (s # stops) = map (Pair s) ds @ reports api stops"
    using s(1) by (simp add: reports_def)
  have "closest c d' ((R @ map (Pair s) ds) @ reports api stops)"
    by (rule Cons.IH[OF s(3) track_departures_closest[OF s(2) Cons.prems(2)]])
  then show ?case unfolding r by simp
qed

lemma closest_empty: "closest c [] []"
  by (simp add: closest_def)

text \<open>
  Whenever \<open>get_next_departures_for_stop_list\<close> returns, the entry kept for a trip
  is one of the reports of that trip, its distance is the distance of its stop from the
  starting coordinates, and no stop that reports the trip is closer.
\<close>

lemma get_next_departures_keeps_closest:
  assumes g: "get_next_departures_for_stop_list api stops starting_coords = Inr departures"
    and m: "(tid, tv) \<in> set departures"
  shows "trip_id (dep_trip (t_departure tv)) = tid"
    and "(t_closest_stop tv, t_departure tv) \<in> set (reports api stops)"
    and "stop_distance starting_coords (t_closest_stop tv) = Inr (t_distance tv)"
    and "\<forall>(s, x) \<in> set (reports api stops). trip_id (dep_trip x) = tid \<longrightarrow>
           (\<exists>dx. stop_distance starting_coords s = Inr dx \<and> t_distance tv \<le> dx)"
proof -
  have t: "track_stops api starting_coords [] stops = Inr departures"
    using g by (simp add: get_next_departures_for_stop_list_def)
  have "distinct (map fst departures)" using track_stops_keys[OF t] by simp
  then have s: "map_of departures tid = Some tv" using m by (rule map_of_is_SomeI)
  have c: "closest starting_coords departures (reports api stops)"
    using track_stops_closest[OF t closest_empty] by simp
  show "trip_id (dep_trip (t_departure tv)) = tid"
    and "(t_closest_stop tv, t_departure tv) \<in> set (reports api stops)"
    and "stop_distance starting_coords (t_closest_stop tv) = Inr (t_distance tv)"
    using closest_entry[OF c s] by simp_all
  show "\<forall>(s, x) \<in> set (reports api stops). trip_id (dep_trip x) = tid \<longrightarrow>
           (\<exists>dx. stop_distance starting_coords s = Inr dx \<and> t_distance tv \<le> dx)"
    using closest_le[OF c s] by blast
qed

end
